theory Spec2Isabelle
  imports Main "HOL-Library.Sublist"
begin

section \<open>The mirror tree of fs-gdrive: nodes, path resolution and the operation layer\<close>

text \<open>
  The development embeds \<^verbatim>\<open>src/classes/node.ts\<close> and \<^verbatim>\<open>src/classes/gdrive.ts\<close>.
  Node objects are mutable and shared (a child is referenced from its parent's
  \<^verbatim>\<open>children\<close> array and refers back through \<^verbatim>\<open>parent\<close>), so nodes live in an explicit
  store: an address is a natural number, \<open>heap\<close> maps addresses to node records and
  \<open>nextAddr\<close> is the next unused address. Every \<^verbatim>\<open>new Node(...)\<close> allocates at \<open>nextAddr\<close>.

  An \<^verbatim>\<open>Error\<close> is its message. A function that can throw returns \<open>string + 'a\<close>, the
  message on the left. The Google Drive client is a parameter: a record of functions over a
  remote state \<open>'r\<close>, each returning the rejection message or the response data, and the next
  remote state. The field \<open>calls\<close> counts the requests sent to it.
\<close>

subsection \<open>Strings and paths\<close>

definition sq :: string where
  "sq = [CHR 0x27]"

text \<open>\<^verbatim>\<open>s.split('/')\<close>: never empty, \<^verbatim>\<open>''.split('/')\<close> is \<^verbatim>\<open>['']\<close>.\<close>

fun split_slash :: "string \<Rightarrow> string list" where
  "split_slash [] = [[]]"
| "split_slash (c # cs) =
     (if c = CHR ''/'' then [] # split_slash cs
      else (case split_slash cs of [] \<Rightarrow> [[c]] | w # ws \<Rightarrow> (c # w) # ws))"

text \<open>\<^verbatim>\<open>xs.join(sep)\<close>.\<close>

fun join_str :: "string \<Rightarrow> string list \<Rightarrow> string" where
  "join_str sep [] = []"
| "join_str sep [x] = x"
| "join_str sep (x # y # ys) = x @ sep @ join_str sep (y # ys)"

text \<open>\<^verbatim>\<open>path.split('/').filter(Boolean)\<close>: the non-empty segments.\<close>

definition path_parts :: "string \<Rightarrow> string list" where
  "path_parts path = filter (\<lambda>p. p \<noteq> []) (split_slash path)"

text \<open>\<^verbatim>\<open>path.split('/').slice(0, -1).join('/') || '/'\<close> and \<^verbatim>\<open>path.split('/').pop()!\<close>.\<close>

definition parent_path :: "string \<Rightarrow> string" where
  "parent_path path =
     (let p = join_str ''/'' (butlast (split_slash path)) in if p = [] then ''/'' else p)"

definition leaf_name :: "string \<Rightarrow> string" where
  "leaf_name path = last (split_slash path)"

text \<open>Decimal rendering of a number inside a template literal.\<close>

fun show_nat :: "nat \<Rightarrow> string" where
  "show_nat n =
     (if n < 10 then [char_of (48 + n)] else show_nat (n div 10) @ [char_of (48 + n mod 10)])"

subsection \<open>Remote entries and the Drive client\<close>

text \<open>
  A \<^verbatim>\<open>Schema$File\<close> as the requested \<^verbatim>\<open>fields\<close> return it. \<open>file_size\<close> is the value of the
  decimal string Drive sends (absent for folders), \<open>file_modifiedTime\<close> and
  \<open>file_createdTime\<close> the instant of the timestamp string (absent when the field was not
  requested).
\<close>

record schema_file =
  file_id :: string
  file_name :: string
  file_mimeType :: string
  file_size :: "int option"
  file_modifiedTime :: "nat option"
  file_createdTime :: "nat option"

record list_params =
  q :: string
  orderBy :: "string option"
  pageSize :: "nat option"

record create_params =
  create_name :: string
  create_mimeType :: "string option"
  create_parents :: "string list"
  create_body :: "string option"

record update_params =
  update_fileId :: string
  update_name :: string
  update_body :: "string option"
  addParents :: "string option"
  removeParents :: "string option"

record copy_params =
  copy_fileId :: string
  copy_name :: string
  copy_parents :: "string list"

record 'r drive_api =
  files_get :: "string \<Rightarrow> 'r \<Rightarrow> (string + schema_file) \<times> 'r"
  files_get_media :: "string \<Rightarrow> 'r \<Rightarrow> (string + string) \<times> 'r"
  files_list :: "list_params \<Rightarrow> 'r \<Rightarrow> (string + schema_file list) \<times> 'r"
  files_create :: "create_params \<Rightarrow> 'r \<Rightarrow> (string + schema_file) \<times> 'r"
  files_update :: "update_params \<Rightarrow> 'r \<Rightarrow> (string + schema_file) \<times> 'r"
  files_delete :: "string \<Rightarrow> 'r \<Rightarrow> (string + unit) \<times> 'r"
  files_copy :: "copy_params \<Rightarrow> 'r \<Rightarrow> (string + schema_file) \<times> 'r"

subsection \<open>Nodes (node.ts)\<close>

type_synonym addr = nat

text \<open>\<^verbatim>\<open>new Date(s)\<close>: an instant, or Invalid Date when \<open>s\<close> is undefined.\<close>

datatype date = Date nat | InvalidDate

definition new_Date :: "nat option \<Rightarrow> date" where
  "new_Date t = (case t of None \<Rightarrow> InvalidDate | Some ms \<Rightarrow> Date ms)"

text \<open>
  The values of a \<^verbatim>\<open>size\<close>: the numbers that \<^verbatim>\<open>parseInt\<close> gives on a decimal string and
  that \<^verbatim>\<open>+\<close> gives on such numbers. \<open>Number n\<close> is the double whose value is the integer
  \<open>n\<close> (the two zeros are one value here).
\<close>

datatype number = Number int | Infinity | NegInfinity | NaN

fun bit_length :: "nat \<Rightarrow> nat" where
  "bit_length n = (if n = 0 then 0 else Suc (bit_length (n div 2)))"

declare bit_length.simps [simp del]

text \<open>
  The double nearest to an integer: the integer itself up to \<open>2\<^sup>5\<^sup>3\<close>; beyond, the 53 leading
  bits, rounded to nearest with ties to even, and an infinity from \<open>2\<^sup>1\<^sup>0\<^sup>2\<^sup>4\<close> on.
\<close>

definition to_double :: "int \<Rightarrow> number" where
  "to_double x =
     (if \<bar>x\<bar> \<le> 2 ^ 53 then Number x
      else
        (let m = nat \<bar>x\<bar>;
             e = bit_length m - 53;
             qt = m div 2 ^ e;
             r = m mod 2 ^ e;
             half = 2 ^ (e - 1);
             v = (if half < r \<or> (r = half \<and> odd qt) then qt + 1 else qt) * 2 ^ e
         in if 2 ^ 1024 \<le> v then (if x < 0 then NegInfinity else Infinity)
            else Number (if x < 0 then - int v else int v)))"

text \<open>\<^verbatim>\<open>a + b\<close> on these numbers.\<close>

fun js_add :: "number \<Rightarrow> number \<Rightarrow> number" where
  "js_add (Number a) (Number b) = to_double (a + b)"
| "js_add NaN b = NaN"
| "js_add a NaN = NaN"
| "js_add Infinity NegInfinity = NaN"
| "js_add NegInfinity Infinity = NaN"
| "js_add Infinity b = Infinity"
| "js_add a Infinity = Infinity"
| "js_add NegInfinity b = NegInfinity"
| "js_add a NegInfinity = NegInfinity"

record node =
  id' :: string
  name :: string
  mimeType :: string
  size' :: number
  modifiedTime :: "date option"
  createdTime :: "date option"
  children :: "addr list option"
  parent :: "addr option"

text \<open>
  Modelled from the spec: \<^verbatim>\<open>DriveMimeTypes.Folder\<close> of \<^verbatim>\<open>typings/enum.ts\<close>, the store's folder
  marker; the value is the literal the JavaScript variant of the class gives its root node.
\<close>

definition DriveMimeTypes_Folder :: string where
  "DriveMimeTypes_Folder = ''application/vnd.google-apps.folder''"

definition new_Node ::
  "string \<Rightarrow> string \<Rightarrow> string \<Rightarrow> number \<Rightarrow> date option \<Rightarrow> date option \<Rightarrow> node" where
  "new_Node i n m sz mt ct =
     \<lparr>id' = i, name = n, mimeType = m, size' = sz, modifiedTime = mt, createdTime = ct,
      children = None, parent = None\<rparr>"

definition isDirectory :: "node \<Rightarrow> bool" where
  "isDirectory nd \<longleftrightarrow> mimeType nd = DriveMimeTypes_Folder"

definition isFile :: "node \<Rightarrow> bool" where
  "isFile nd \<longleftrightarrow> \<not> isDirectory nd"

text \<open>\<^verbatim>\<open>this.children || []\<close>.\<close>

definition children_or_empty :: "node \<Rightarrow> addr list" where
  "children_or_empty nd = (case children nd of None \<Rightarrow> [] | Some cs \<Rightarrow> cs)"

text \<open>
  \<^verbatim>\<open>getSize()\<close> recurses through the children. The first argument bounds the depth of the
  recursion; \<open>None\<close> is the recursion not having returned within that depth.
\<close>

fun getSize :: "nat \<Rightarrow> (addr \<Rightarrow> node) \<Rightarrow> addr \<Rightarrow> number option" where
  "getSize 0 h a = None"
| "getSize (Suc k) h a =
     (if isFile (h a) then Some (size' (h a))
      else foldl (\<lambda>total child.
                    case total of None \<Rightarrow> None
                    | Some t \<Rightarrow> (case getSize k h child of None \<Rightarrow> None | Some v \<Rightarrow> Some (js_add t v)))
             (Some (Number 0)) (children_or_empty (h a)))"

text \<open>\<^verbatim>\<open>getPath()\<close>: the loop follows \<open>parent\<close> as long as there is one.\<close>

partial_function (option) getPath_loop ::
  "(addr \<Rightarrow> node) \<Rightarrow> string \<Rightarrow> addr option \<Rightarrow> string option" where
  "getPath_loop h path currentNode =
     (case currentNode of
        None \<Rightarrow> Some path
      | Some c \<Rightarrow> getPath_loop h (name (h c) @ ''/'' @ path) (parent (h c)))"

definition getPath :: "(addr \<Rightarrow> node) \<Rightarrow> addr \<Rightarrow> string option" where
  "getPath h a =
     (case getPath_loop h (name (h a)) (parent (h a)) of
        None \<Rightarrow> None
      | Some path \<Rightarrow> Some (''/'' @ path))"

text \<open>\<^verbatim>\<open>xs.findIndex(p)\<close>, with \<open>None\<close> for \<^verbatim>\<open>-1\<close>.\<close>

fun findIndex :: "('a \<Rightarrow> bool) \<Rightarrow> 'a list \<Rightarrow> nat option" where
  "findIndex P [] = None"
| "findIndex P (x # xs) =
     (if P x then Some 0 else (case findIndex P xs of None \<Rightarrow> None | Some i \<Rightarrow> Some (Suc i)))"

subsection \<open>The client state (gdrive.ts)\<close>

record gdrive_options =
  opt_root :: string
  auth_email :: string
  auth_privateKey :: string

text \<open>
  \<open>connected\<close> is \<^verbatim>\<open>#drive !== null\<close>; \<open>drive\<close> is the state of the remote store behind the
  client.
\<close>

record 'r gdrive =
  options :: gdrive_options
  connected :: bool
  drive :: 'r
  rootNode :: "addr option"
  lastConnect :: "nat option"
  heap :: "addr \<Rightarrow> node"
  nextAddr :: addr
  calls :: nat

definition new_GDrive :: "gdrive_options \<Rightarrow> 'r \<Rightarrow> 'r gdrive" where
  "new_GDrive opts r =
     \<lparr>options = opts, connected = False, drive = r, rootNode = None, lastConnect = None,
      heap = (\<lambda>_. new_Node [] [] [] (Number 0) None None), nextAddr = 0, calls = 0\<rparr>"

definition CONNECTION_TIMEOUT :: int where
  "CONNECTION_TIMEOUT = 3 * 60 * 60 * 1000"

definition alloc :: "node \<Rightarrow> 'r gdrive \<Rightarrow> addr \<times> 'r gdrive" where
  "alloc nd s = (nextAddr s, s\<lparr>heap := (heap s)(nextAddr s := nd), nextAddr := Suc (nextAddr s)\<rparr>)"

definition upd_node :: "addr \<Rightarrow> (node \<Rightarrow> node) \<Rightarrow> 'r gdrive \<Rightarrow> 'r gdrive" where
  "upd_node a f s = s\<lparr>heap := (heap s)(a := f (heap s a))\<rparr>"

text \<open>\<^verbatim>\<open>this.addChild(child)\<close>.\<close>

definition addChild :: "addr \<Rightarrow> addr \<Rightarrow> 'r gdrive \<Rightarrow> 'r gdrive" where
  "addChild this child s =
     (if \<not> isDirectory (heap s this) then s
      else upd_node child (\<lambda>n. n\<lparr>parent := Some this\<rparr>)
             (upd_node this (\<lambda>n. n\<lparr>children := Some (children_or_empty n @ [child])\<rparr>) s))"

text \<open>\<^verbatim>\<open>this.removeChild(childId)\<close>.\<close>

definition removeChild :: "addr \<Rightarrow> string \<Rightarrow> 'r gdrive \<Rightarrow> bool \<times> 'r gdrive" where
  "removeChild this childId s =
     (case children (heap s this) of
        None \<Rightarrow> (False, s)
      | Some cs \<Rightarrow>
          (case findIndex (\<lambda>child. id' (heap s child) = childId) cs of
             None \<Rightarrow> (False, s)
           | Some index \<Rightarrow>
               (True, upd_node this (\<lambda>n. n\<lparr>children := Some (take index cs @ drop (Suc index) cs)\<rparr>) s)))"

text \<open>The requests, each counted.\<close>

definition call_get :: "'r drive_api \<Rightarrow> string \<Rightarrow> 'r gdrive \<Rightarrow> (string + schema_file) \<times> 'r gdrive" where
  "call_get D fileId s =
     (case files_get D fileId (drive s) of (res, r) \<Rightarrow> (res, s\<lparr>drive := r, calls := Suc (calls s)\<rparr>))"

definition call_get_media :: "'r drive_api \<Rightarrow> string \<Rightarrow> 'r gdrive \<Rightarrow> (string + string) \<times> 'r gdrive" where
  "call_get_media D fileId s =
     (case files_get_media D fileId (drive s) of (res, r) \<Rightarrow> (res, s\<lparr>drive := r, calls := Suc (calls s)\<rparr>))"

definition call_list ::
  "'r drive_api \<Rightarrow> list_params \<Rightarrow> 'r gdrive \<Rightarrow> (string + schema_file list) \<times> 'r gdrive" where
  "call_list D ps s =
     (case files_list D ps (drive s) of (res, r) \<Rightarrow> (res, s\<lparr>drive := r, calls := Suc (calls s)\<rparr>))"

definition call_create ::
  "'r drive_api \<Rightarrow> create_params \<Rightarrow> 'r gdrive \<Rightarrow> (string + schema_file) \<times> 'r gdrive" where
  "call_create D ps s =
     (case files_create D ps (drive s) of (res, r) \<Rightarrow> (res, s\<lparr>drive := r, calls := Suc (calls s)\<rparr>))"

definition call_update ::
  "'r drive_api \<Rightarrow> update_params \<Rightarrow> 'r gdrive \<Rightarrow> (string + schema_file) \<times> 'r gdrive" where
  "call_update D ps s =
     (case files_update D ps (drive s) of (res, r) \<Rightarrow> (res, s\<lparr>drive := r, calls := Suc (calls s)\<rparr>))"

definition call_delete :: "'r drive_api \<Rightarrow> string \<Rightarrow> 'r gdrive \<Rightarrow> (string + unit) \<times> 'r gdrive" where
  "call_delete D fileId s =
     (case files_delete D fileId (drive s) of (res, r) \<Rightarrow> (res, s\<lparr>drive := r, calls := Suc (calls s)\<rparr>))"

definition call_copy ::
  "'r drive_api \<Rightarrow> copy_params \<Rightarrow> 'r gdrive \<Rightarrow> (string + schema_file) \<times> 'r gdrive" where
  "call_copy D ps s =
     (case files_copy D ps (drive s) of (res, r) \<Rightarrow> (res, s\<lparr>drive := r, calls := Suc (calls s)\<rparr>))"

text \<open>
  The two ways the source reads a size: \<^verbatim>\<open>parseInt(x.size ?? '0')\<close> and
  \<^verbatim>\<open>parseInt(x.size!) || 0\<close>. \<^verbatim>\<open>parseInt\<close> of a decimal string is the double nearest to its
  value, and \<^verbatim>\<open>NaN\<close> when there is no string.
\<close>

definition parseInt_dflt :: "int option \<Rightarrow> number" where
  "parseInt_dflt sz = (case sz of None \<Rightarrow> to_double 0 | Some n \<Rightarrow> to_double n)"

text \<open>\<^verbatim>\<open>x || 0\<close>: \<open>0\<close> for the falsy numbers \<^verbatim>\<open>0\<close> and \<^verbatim>\<open>NaN\<close>.\<close>

definition or0 :: "number \<Rightarrow> number" where
  "or0 x = (if x = Number 0 \<or> x = NaN then Number 0 else x)"

definition parseInt_or0 :: "int option \<Rightarrow> number" where
  "parseInt_or0 sz = or0 (case sz of None \<Rightarrow> NaN | Some n \<Rightarrow> to_double n)"

text \<open>The node built from a response in \<^verbatim>\<open>connect\<close> and \<^verbatim>\<open>#resolvePath\<close>.\<close>

definition node_of_file_dflt :: "schema_file \<Rightarrow> node" where
  "node_of_file_dflt f =
     new_Node (file_id f) (file_name f) (file_mimeType f) (parseInt_dflt (file_size f))
       (Some (new_Date (file_modifiedTime f))) (Some (new_Date (file_createdTime f)))"

text \<open>The node built from a response in the other operations.\<close>

definition node_of_file :: "schema_file \<Rightarrow> node" where
  "node_of_file f =
     new_Node (file_id f) (file_name f) (file_mimeType f) (parseInt_or0 (file_size f))
       (Some (new_Date (file_modifiedTime f))) (Some (new_Date (file_createdTime f)))"

text \<open>The node \<^verbatim>\<open>mkdir\<close> builds: \<^verbatim>\<open>size: 0\<close>.\<close>

definition node_of_folder :: "schema_file \<Rightarrow> node" where
  "node_of_folder f =
     new_Node (file_id f) (file_name f) (file_mimeType f) (Number 0)
       (Some (new_Date (file_modifiedTime f))) (Some (new_Date (file_createdTime f)))"

definition connect :: "'r drive_api \<Rightarrow> nat \<Rightarrow> 'r gdrive \<Rightarrow> (string + unit) \<times> 'r gdrive" where
  "connect D now s =
     (if auth_email (options s) = [] \<or> auth_privateKey (options s) = []
      then (Inl ''Invalid authentication credentials'', s)
      else
        (case call_get D (opt_root (options s)) (s\<lparr>connected := True, lastConnect := Some now\<rparr>) of
           (Inl m, s1) \<Rightarrow> (Inl (''Failed to connect to Google Drive: '' @ m), s1)
         | (Inr data, s1) \<Rightarrow>
             if file_id data = [] \<or> file_name data = []
             then (Inl (''Failed to connect to Google Drive: '' @ ''Invalid root folder data received''), s1)
             else (case alloc (node_of_file_dflt data) s1 of
                     (a, s2) \<Rightarrow> (Inr (), s2\<lparr>rootNode := Some a\<rparr>))))"

definition autoConnect :: "'r drive_api \<Rightarrow> nat \<Rightarrow> 'r gdrive \<Rightarrow> (string + unit) \<times> 'r gdrive" where
  "autoConnect D now s =
     (if \<not> connected s \<or>
         (case lastConnect s of None \<Rightarrow> False | Some t \<Rightarrow> int now - int t > CONNECTION_TIMEOUT)
      then connect D now s
      else (Inr (), s))"

subsection \<open>Path resolution\<close>

definition name_query :: "string \<Rightarrow> string \<Rightarrow> list_params" where
  "name_query folderId fileName =
     \<lparr>q = sq @ folderId @ sq @ '' in parents and name = '' @ sq @ fileName @ sq @ '' and trashed = false'',
      orderBy = None, pageSize = None\<rparr>"

definition children_query :: "string \<Rightarrow> list_params" where
  "children_query folderId =
     \<lparr>q = sq @ folderId @ sq @ '' in parents and trashed = false'', orderBy = None, pageSize = None\<rparr>"

text \<open>\<^verbatim>\<open>currentNode.children?.find(child => child.name === part)\<close>.\<close>

definition find_child :: "(addr \<Rightarrow> node) \<Rightarrow> addr \<Rightarrow> string \<Rightarrow> addr option" where
  "find_child h currentNode part =
     (case children (h currentNode) of
        None \<Rightarrow> None
      | Some cs \<Rightarrow> find (\<lambda>child. name (h child) = part) cs)"

text \<open>The \<^verbatim>\<open>for (const part of parts)\<close> loop of \<^verbatim>\<open>#resolvePath\<close>, from \<open>currentNode\<close>.\<close>

fun resolve_loop ::
  "'r drive_api \<Rightarrow> string \<Rightarrow> string list \<Rightarrow> addr \<Rightarrow> 'r gdrive \<Rightarrow> (string + addr) \<times> 'r gdrive" where
  "resolve_loop D path [] currentNode s = (Inr currentNode, s)"
| "resolve_loop D path (part # parts) currentNode s =
     (if \<not> isDirectory (heap s currentNode)
      then (Inl (name (heap s currentNode) @ '' is not a directory''), s)
      else
        (case find_child (heap s) currentNode part of
           Some childNode \<Rightarrow> resolve_loop D path parts childNode s
         | None \<Rightarrow>
             (case call_list D (name_query (id' (heap s currentNode)) part) s of
                (Inl m, s1) \<Rightarrow> (Inl m, s1)
              | (Inr [], s1) \<Rightarrow> (Inl (''Path not found: '' @ path), s1)
              | (Inr (file # _), s1) \<Rightarrow>
                  (case alloc (node_of_file_dflt file) s1 of
                     (newNode, s2) \<Rightarrow>
                       resolve_loop D path parts newNode (addChild currentNode newNode s2)))))"

definition resolvePath :: "'r drive_api \<Rightarrow> string \<Rightarrow> 'r gdrive \<Rightarrow> (string + addr) \<times> 'r gdrive" where
  "resolvePath D path s =
     (case rootNode s of
        None \<Rightarrow> (Inl ''Root node not initialized. Please connect first.'', s)
      | Some r \<Rightarrow>
          if path = ''/'' then (Inr r, s)
          else resolve_loop D path (path_parts path) r s)"

subsection \<open>The operations\<close>

text \<open>\<^verbatim>\<open>try { ... } catch (error) { throw new Error(`<prefix>${error.message}`) }\<close>.\<close>

definition rethrow :: "string \<Rightarrow> (string + 'a) \<times> 's \<Rightarrow> (string + 'a) \<times> 's" where
  "rethrow pre r = (case r of (Inl m, s) \<Rightarrow> (Inl (pre @ m), s) | (Inr x, s) \<Rightarrow> (Inr x, s))"

text \<open>
  A public operation: \<^verbatim>\<open>await this.autoConnect()\<close> outside the \<^verbatim>\<open>try\<close>, then the guarded body.
  \<open>now\<close> is the clock reading of \<^verbatim>\<open>new Date()\<close>.
\<close>

definition operation ::
  "'r drive_api \<Rightarrow> nat \<Rightarrow> string \<Rightarrow> ('r gdrive \<Rightarrow> (string + 'a) \<times> 'r gdrive) \<Rightarrow> 'r gdrive
     \<Rightarrow> (string + 'a) \<times> 'r gdrive" where
  "operation D now pre body s =
     (case autoConnect D now s of
        (Inl e, s1) \<Rightarrow> (Inl e, s1)
      | (Inr _, s1) \<Rightarrow> rethrow pre (body s1))"

text \<open>The callback of \<^verbatim>\<open>res.data.files!.map\<close> in \<^verbatim>\<open>readdir\<close>, file by file.\<close>

fun readdir_map :: "addr \<Rightarrow> schema_file list \<Rightarrow> 'r gdrive \<Rightarrow> addr list \<times> 'r gdrive" where
  "readdir_map node [] s = ([], s)"
| "readdir_map node (file # files) s =
     (case alloc (node_of_file file) s of
        (childeNode, s1) \<Rightarrow>
          (case readdir_map node files (addChild node childeNode s1) of
             (cs, s2) \<Rightarrow> (childeNode # cs, s2)))"

definition readdir_try :: "'r drive_api \<Rightarrow> string \<Rightarrow> 'r gdrive \<Rightarrow> (string + addr list) \<times> 'r gdrive" where
  "readdir_try D path s =
     (case resolvePath D path s of
        (Inl m, s1) \<Rightarrow> (Inl m, s1)
      | (Inr node, s1) \<Rightarrow>
          if \<not> isDirectory (heap s1 node) then (Inl ''Not a directory'', s1)
          else
            (case call_list D (children_query (id' (heap s1 node))) s1 of
               (Inl m, s2) \<Rightarrow> (Inl m, s2)
             | (Inr files, s2) \<Rightarrow>
                 (case readdir_map node files s2 of
                    (cs, s3) \<Rightarrow> (Inr cs, upd_node node (\<lambda>n. n\<lparr>children := Some cs\<rparr>) s3))))"

definition readdir :: "'r drive_api \<Rightarrow> nat \<Rightarrow> string \<Rightarrow> 'r gdrive \<Rightarrow> (string + addr list) \<times> 'r gdrive" where
  "readdir D now path = operation D now ''Failed to read directory: '' (readdir_try D path)"

definition mkdir_try :: "'r drive_api \<Rightarrow> string \<Rightarrow> 'r gdrive \<Rightarrow> (string + addr) \<times> 'r gdrive" where
  "mkdir_try D path s =
     (case resolvePath D (parent_path path) s of
        (Inl m, s1) \<Rightarrow> (Inl m, s1)
      | (Inr parentNode, s1) \<Rightarrow>
          (case call_create D
                  \<lparr>create_name = leaf_name path, create_mimeType = Some DriveMimeTypes_Folder,
                   create_parents = [id' (heap s1 parentNode)], create_body = None\<rparr> s1 of
             (Inl m, s2) \<Rightarrow> (Inl m, s2)
           | (Inr data, s2) \<Rightarrow>
               (case alloc (node_of_folder data) s2 of
                  (newNode, s3) \<Rightarrow> (Inr newNode, addChild parentNode newNode s3))))"

definition mkdir :: "'r drive_api \<Rightarrow> nat \<Rightarrow> string \<Rightarrow> 'r gdrive \<Rightarrow> (string + addr) \<times> 'r gdrive" where
  "mkdir D now path = operation D now ''Failed to create directory: '' (mkdir_try D path)"

definition findFileInFolder ::
  "'r drive_api \<Rightarrow> string \<Rightarrow> string \<Rightarrow> 'r gdrive \<Rightarrow> (string + schema_file option) \<times> 'r gdrive" where
  "findFileInFolder D folderId fileName s =
     (case call_list D (name_query folderId fileName) s of
        (Inl m, s1) \<Rightarrow> (Inl (''Failed to search for file: '' @ m), s1)
      | (Inr files, s1) \<Rightarrow> (Inr (case files of [] \<Rightarrow> None | f # _ \<Rightarrow> Some f), s1))"

text \<open>
  The update branch's \<^verbatim>\<open>parentNode.children[index] = updatedNode\<close>, under its two guards.
\<close>

definition replace_child :: "addr \<Rightarrow> string \<Rightarrow> addr \<Rightarrow> 'r gdrive \<Rightarrow> 'r gdrive" where
  "replace_child parentNode existingId updatedNode s =
     (case children (heap s parentNode) of
        None \<Rightarrow> s
      | Some cs \<Rightarrow>
          (case findIndex (\<lambda>child. id' (heap s child) = existingId) cs of
             None \<Rightarrow> s
           | Some index \<Rightarrow> upd_node parentNode (\<lambda>n. n\<lparr>children := Some (cs[index := updatedNode])\<rparr>) s))"

definition writeFile_try ::
  "'r drive_api \<Rightarrow> string \<Rightarrow> string \<Rightarrow> 'r gdrive \<Rightarrow> (string + addr) \<times> 'r gdrive" where
  "writeFile_try D path content s =
     (case resolvePath D (parent_path path) s of
        (Inl m, s1) \<Rightarrow> (Inl m, s1)
      | (Inr parentNode, s1) \<Rightarrow>
          (case findFileInFolder D (id' (heap s1 parentNode)) (leaf_name path) s1 of
             (Inl m, s2) \<Rightarrow> (Inl m, s2)
           | (Inr (Some existingFile), s2) \<Rightarrow>
               (case call_update D
                       \<lparr>update_fileId = file_id existingFile, update_name = leaf_name path,
                        update_body = Some content, addParents = None, removeParents = None\<rparr> s2 of
                  (Inl m, s3) \<Rightarrow> (Inl m, s3)
                | (Inr data, s3) \<Rightarrow>
                    (case alloc (node_of_file data) s3 of
                       (updatedNode, s4) \<Rightarrow>
                         (Inr updatedNode,
                          replace_child parentNode (file_id existingFile) updatedNode s4)))
           | (Inr None, s2) \<Rightarrow>
               (case call_create D
                       \<lparr>create_name = leaf_name path, create_mimeType = None,
                        create_parents = [id' (heap s2 parentNode)], create_body = Some content\<rparr> s2 of
                  (Inl m, s3) \<Rightarrow> (Inl m, s3)
                | (Inr data, s3) \<Rightarrow>
                    (case alloc (node_of_file data) s3 of
                       (newNode, s4) \<Rightarrow> (Inr newNode, addChild parentNode newNode s4)))))"

definition writeFile ::
  "'r drive_api \<Rightarrow> nat \<Rightarrow> string \<Rightarrow> string \<Rightarrow> 'r gdrive \<Rightarrow> (string + addr) \<times> 'r gdrive" where
  "writeFile D now path content = operation D now ''Failed to write file: '' (writeFile_try D path content)"

definition readFile_try :: "'r drive_api \<Rightarrow> string \<Rightarrow> 'r gdrive \<Rightarrow> (string + string) \<times> 'r gdrive" where
  "readFile_try D path s =
     (case resolvePath D path s of
        (Inl m, s1) \<Rightarrow> (Inl m, s1)
      | (Inr node, s1) \<Rightarrow>
          if isDirectory (heap s1 node) then (Inl ''Cannot read a directory as a file'', s1)
          else call_get_media D (id' (heap s1 node)) s1)"

definition readFile :: "'r drive_api \<Rightarrow> nat \<Rightarrow> string \<Rightarrow> 'r gdrive \<Rightarrow> (string + string) \<times> 'r gdrive" where
  "readFile D now path = operation D now ''Failed to read file: '' (readFile_try D path)"

definition unlink_try :: "'r drive_api \<Rightarrow> string \<Rightarrow> 'r gdrive \<Rightarrow> (string + unit) \<times> 'r gdrive" where
  "unlink_try D path s =
     (case resolvePath D path s of
        (Inl m, s1) \<Rightarrow> (Inl m, s1)
      | (Inr node, s1) \<Rightarrow>
          (case call_delete D (id' (heap s1 node)) s1 of
             (Inl m, s2) \<Rightarrow> (Inl m, s2)
           | (Inr _, s2) \<Rightarrow>
               (case parent (heap s2 node) of
                  None \<Rightarrow> (Inr (), s2)
                | Some p \<Rightarrow> (Inr (), snd (removeChild p (id' (heap s2 node)) s2)))))"

definition unlink :: "'r drive_api \<Rightarrow> nat \<Rightarrow> string \<Rightarrow> 'r gdrive \<Rightarrow> (string + unit) \<times> 'r gdrive" where
  "unlink D now path = operation D now ''Failed to delete file/directory: '' (unlink_try D path)"

text \<open>The local part of \<^verbatim>\<open>rename\<close>, after the remote update has succeeded.\<close>

definition rename_local :: "addr \<Rightarrow> string \<Rightarrow> addr \<Rightarrow> 'r gdrive \<Rightarrow> 'r gdrive" where
  "rename_local node newName newParentNode s =
     (let s1 = upd_node node (\<lambda>n. n\<lparr>name := newName\<rparr>) s;
          s2 = (case parent (heap s1 node) of
                  None \<Rightarrow> s1
                | Some p \<Rightarrow> snd (removeChild p (id' (heap s1 node)) s1))
      in addChild newParentNode node s2)"

definition rename_try ::
  "'r drive_api \<Rightarrow> string \<Rightarrow> string \<Rightarrow> 'r gdrive \<Rightarrow> (string + addr) \<times> 'r gdrive" where
  "rename_try D oldPath newPath s =
     (case resolvePath D oldPath s of
        (Inl m, s1) \<Rightarrow> (Inl m, s1)
      | (Inr node, s1) \<Rightarrow>
          (case resolvePath D (parent_path newPath) s1 of
             (Inl m, s2) \<Rightarrow> (Inl m, s2)
           | (Inr newParentNode, s2) \<Rightarrow>
               (case call_update D
                       \<lparr>update_fileId = id' (heap s2 node), update_name = leaf_name newPath,
                        update_body = None, addParents = Some (id' (heap s2 newParentNode)),
                        removeParents =
                          (case parent (heap s2 node) of
                             None \<Rightarrow> None
                           | Some p \<Rightarrow> Some (id' (heap s2 p)))\<rparr> s2 of
                  (Inl m, s3) \<Rightarrow> (Inl m, s3)
                | (Inr _, s3) \<Rightarrow> (Inr node, rename_local node (leaf_name newPath) newParentNode s3))))"

definition rename ::
  "'r drive_api \<Rightarrow> nat \<Rightarrow> string \<Rightarrow> string \<Rightarrow> 'r gdrive \<Rightarrow> (string + addr) \<times> 'r gdrive" where
  "rename D now oldPath newPath = operation D now ''Failed to rename/move: '' (rename_try D oldPath newPath)"

record nodeStat =
  st_isDirectory :: bool
  st_isFile :: bool
  st_size :: number
  st_mtime :: "date option"
  st_ctime :: "date option"

text \<open>
  \<^verbatim>\<open>node.getSize()\<close> inside \<^verbatim>\<open>stat\<close>. Without a cycle among the children links a chain of
  nested calls visits each node at most once, so a depth of one more than the number of nodes
  allocated is never reached; with a cycle the recursion exhausts the stack and the
  \<^verbatim>\<open>RangeError\<close> is caught like any other error.
\<close>

definition stat_try :: "'r drive_api \<Rightarrow> string \<Rightarrow> 'r gdrive \<Rightarrow> (string + nodeStat) \<times> 'r gdrive" where
  "stat_try D path s =
     (case resolvePath D path s of
        (Inl m, s1) \<Rightarrow> (Inl m, s1)
      | (Inr node, s1) \<Rightarrow>
          (case getSize (Suc (nextAddr s1)) (heap s1) node of
             None \<Rightarrow> (Inl ''Maximum call stack size exceeded'', s1)
           | Some sz \<Rightarrow>
               (Inr \<lparr>st_isDirectory = isDirectory (heap s1 node), st_isFile = isFile (heap s1 node),
                     st_size = sz, st_mtime = modifiedTime (heap s1 node),
                     st_ctime = createdTime (heap s1 node)\<rparr>, s1)))"

definition stat :: "'r drive_api \<Rightarrow> nat \<Rightarrow> string \<Rightarrow> 'r gdrive \<Rightarrow> (string + nodeStat) \<times> 'r gdrive" where
  "stat D now path = operation D now ''Failed to get file stats: '' (stat_try D path)"

text \<open>
  \<^verbatim>\<open>NodeSearchOptions\<close>. A date is given by its \<^verbatim>\<open>toISOString()\<close>; an option is used when it
  is truthy (a non-empty string, a non-zero number).
\<close>

record nodeSearchOptions =
  so_name :: "string option"
  so_mimeType :: "string option"
  minSize :: "nat option"
  maxSize :: "nat option"
  modifiedAfter :: "string option"
  modifiedBefore :: "string option"
  so_orderBy :: "string option"
  limit :: "nat option"

text \<open>The clause an option contributes to the query: none unless the option is truthy.\<close>

definition str_clause :: "string option \<Rightarrow> (string \<Rightarrow> string) \<Rightarrow> string list" where
  "str_clause x f = (case x of None \<Rightarrow> [] | Some v \<Rightarrow> if v = [] then [] else [f v])"

definition num_clause :: "nat option \<Rightarrow> (nat \<Rightarrow> string) \<Rightarrow> string list" where
  "num_clause x f = (case x of None \<Rightarrow> [] | Some v \<Rightarrow> if v = 0 then [] else [f v])"

definition search_query :: "string \<Rightarrow> nodeSearchOptions \<Rightarrow> list_params" where
  "search_query parentId opts =
     \<lparr>q = join_str '' and ''
            ([sq @ parentId @ sq @ '' in parents'', ''trashed = false'']
             @ str_clause (so_name opts) (\<lambda>v. ''name contains '' @ sq @ v @ sq)
             @ str_clause (so_mimeType opts) (\<lambda>v. ''mimeType = '' @ sq @ v @ sq)
             @ num_clause (minSize opts) (\<lambda>v. ''size >= '' @ show_nat v)
             @ num_clause (maxSize opts) (\<lambda>v. ''size <= '' @ show_nat v)
             @ (case modifiedAfter opts of None \<Rightarrow> [] | Some d \<Rightarrow> [''modifiedTime > '' @ sq @ d @ sq])
             @ (case modifiedBefore opts of None \<Rightarrow> [] | Some d \<Rightarrow> [''modifiedTime < '' @ sq @ d @ sq])),
      orderBy = Some (case so_orderBy opts of
                        None \<Rightarrow> ''modifiedTime desc''
                      | Some v \<Rightarrow> if v = [] then ''modifiedTime desc'' else v),
      pageSize = Some (case limit opts of None \<Rightarrow> 100 | Some v \<Rightarrow> if v = 0 then 100 else v)\<rparr>"

fun search_map :: "schema_file list \<Rightarrow> 'r gdrive \<Rightarrow> addr list \<times> 'r gdrive" where
  "search_map [] s = ([], s)"
| "search_map (file # files) s =
     (case alloc (node_of_file file) s of
        (n, s1) \<Rightarrow> (case search_map files s1 of (ns, s2) \<Rightarrow> (n # ns, s2)))"

definition search_try ::
  "'r drive_api \<Rightarrow> nodeSearchOptions \<Rightarrow> string \<Rightarrow> 'r gdrive \<Rightarrow> (string + addr list) \<times> 'r gdrive" where
  "search_try D opts path s =
     (case resolvePath D path s of
        (Inl m, s1) \<Rightarrow> (Inl m, s1)
      | (Inr parentNode, s1) \<Rightarrow>
          (case call_list D (search_query (id' (heap s1 parentNode)) opts) s1 of
             (Inl m, s2) \<Rightarrow> (Inl m, s2)
           | (Inr files, s2) \<Rightarrow> (case search_map files s2 of (ns, s3) \<Rightarrow> (Inr ns, s3))))"

definition search ::
  "'r drive_api \<Rightarrow> nat \<Rightarrow> nodeSearchOptions \<Rightarrow> string \<Rightarrow> 'r gdrive \<Rightarrow> (string + addr list) \<times> 'r gdrive" where
  "search D now opts path = operation D now ''Failed to search: '' (search_try D opts path)"

definition copy_try ::
  "'r drive_api \<Rightarrow> string \<Rightarrow> string \<Rightarrow> 'r gdrive \<Rightarrow> (string + addr) \<times> 'r gdrive" where
  "copy_try D sourcePath destinationPath s =
     (case resolvePath D sourcePath s of
        (Inl m, s1) \<Rightarrow> (Inl m, s1)
      | (Inr sourceNode, s1) \<Rightarrow>
          (case resolvePath D (parent_path destinationPath) s1 of
             (Inl m, s2) \<Rightarrow> (Inl m, s2)
           | (Inr destParentNode, s2) \<Rightarrow>
               (case call_copy D
                       \<lparr>copy_fileId = id' (heap s2 sourceNode), copy_name = leaf_name destinationPath,
                        copy_parents = [id' (heap s2 destParentNode)]\<rparr> s2 of
                  (Inl m, s3) \<Rightarrow> (Inl m, s3)
                | (Inr data, s3) \<Rightarrow>
                    (case alloc (node_of_file data) s3 of
                       (newNode, s4) \<Rightarrow> (Inr newNode, addChild destParentNode newNode s4)))))"

definition copy ::
  "'r drive_api \<Rightarrow> nat \<Rightarrow> string \<Rightarrow> string \<Rightarrow> 'r gdrive \<Rightarrow> (string + addr) \<times> 'r gdrive" where
  "copy D now sourcePath destinationPath =
     operation D now ''Failed to copy file: '' (copy_try D sourcePath destinationPath)"

subsection \<open>Reachable states\<close>

text \<open>
  The states of a client: the constructor's, and those after any public call with any
  arguments at any clock reading, whatever it returned. Between two calls the remote store
  may change in any way.
\<close>

inductive reachable :: "'r drive_api \<Rightarrow> 'r gdrive \<Rightarrow> bool" for D :: "'r drive_api" where
  r_new: "reachable D (new_GDrive opts r)"
| r_remote: "reachable D s \<Longrightarrow> reachable D (s\<lparr>drive := r\<rparr>)"
| r_connect: "reachable D s \<Longrightarrow> reachable D (snd (connect D now s))"
| r_readdir: "reachable D s \<Longrightarrow> reachable D (snd (readdir D now path s))"
| r_mkdir: "reachable D s \<Longrightarrow> reachable D (snd (mkdir D now path s))"
| r_writeFile: "reachable D s \<Longrightarrow> reachable D (snd (writeFile D now path content s))"
| r_readFile: "reachable D s \<Longrightarrow> reachable D (snd (readFile D now path s))"
| r_unlink: "reachable D s \<Longrightarrow> reachable D (snd (unlink D now path s))"
| r_rename: "reachable D s \<Longrightarrow> reachable D (snd (rename D now oldPath newPath s))"
| r_stat: "reachable D s \<Longrightarrow> reachable D (snd (stat D now path s))"
| r_search: "reachable D s \<Longrightarrow> reachable D (snd (search D now sopts path s))"
| r_copy: "reachable D s \<Longrightarrow> reachable D (snd (copy D now sourcePath destinationPath s))"

subsection \<open>Invariants of the store\<close>

text \<open>
  \<open>valid\<close>: every reference in the store is to an allocated node. \<open>files_childless\<close>: a node
  that is not a folder has no \<^verbatim>\<open>children\<close> array. \<open>extends s s'\<close>: from \<open>s\<close> to \<open>s'\<close> nodes were only
  added and child lists only appended to.
\<close>

definition valid :: "'r gdrive \<Rightarrow> bool" where
  "valid s \<longleftrightarrow>
     (\<forall>r. rootNode s = Some r \<longrightarrow> r < nextAddr s) \<and>
     (\<forall>a c. c \<in> set (children_or_empty (heap s a)) \<longrightarrow> c < nextAddr s) \<and>
     (\<forall>a p. parent (heap s a) = Some p \<longrightarrow> p < nextAddr s)"

definition files_childless :: "'r gdrive \<Rightarrow> bool" where
  "files_childless s \<longleftrightarrow> (\<forall>a. isFile (heap s a) \<longrightarrow> children (heap s a) = None)"

definition extends :: "'r gdrive \<Rightarrow> 'r gdrive \<Rightarrow> bool" where
  "extends s s' \<longleftrightarrow>
     nextAddr s \<le> nextAddr s' \<and> rootNode s' = rootNode s \<and>
     (\<forall>a < nextAddr s.
        id' (heap s' a) = id' (heap s a) \<and> name (heap s' a) = name (heap s a) \<and>
        mimeType (heap s' a) = mimeType (heap s a) \<and> size' (heap s' a) = size' (heap s a) \<and>
        parent (heap s' a) = parent (heap s a) \<and>
        prefix (children_or_empty (heap s a)) (children_or_empty (heap s' a)) \<and>
        (children (heap s a) \<noteq> None \<longrightarrow> children (heap s' a) \<noteq> None))"


text \<open>
  The walk of \<^verbatim>\<open>#resolvePath\<close> over the cached children alone: \<open>None\<close> where the loop would
  throw or send a request.
\<close>

fun cached_walk :: "(addr \<Rightarrow> node) \<Rightarrow> addr \<Rightarrow> string list \<Rightarrow> addr option" where
  "cached_walk h currentNode [] = Some currentNode"
| "cached_walk h currentNode (part # parts) =
     (if \<not> isDirectory (h currentNode) then None
      else (case find_child h currentNode part of
              None \<Rightarrow> None
            | Some childNode \<Rightarrow> cached_walk h childNode parts))"




text \<open>
  \<open>parent_chain h cur ps\<close>: following \<^verbatim>\<open>parent\<close> from \<open>cur\<close> visits exactly the nodes \<open>ps\<close> and
  ends at a node without parent.
\<close>

fun parent_chain :: "(addr \<Rightarrow> node) \<Rightarrow> addr option \<Rightarrow> addr list \<Rightarrow> bool" where
  "parent_chain h None ps \<longleftrightarrow> ps = []"
| "parent_chain h (Some p) [] \<longleftrightarrow> False"
| "parent_chain h (Some p) (x # xs) \<longleftrightarrow> x = p \<and> parent_chain h (parent (h p)) xs"

text \<open>The invariant of the reachable states.\<close>

definition inv :: "'r gdrive \<Rightarrow> bool" where
  "inv s \<longleftrightarrow> valid s \<and> files_childless s"

text \<open>The two states have the same store and root.\<close>

definition same_store :: "'r gdrive \<Rightarrow> 'r gdrive \<Rightarrow> bool" where
  "same_store s s' \<longleftrightarrow> heap s' = heap s \<and> nextAddr s' = nextAddr s \<and> rootNode s' = rootNode s"


subsection \<open>A small remote store for the examples\<close>

text \<open>
  An in-memory store behind the client interface: entries with the id of their parent,
  listed in insertion order. It answers the two list queries the client builds from a folder
  id (by exact name, and all children) for entries whose name and parent id contain no
  quote, accepts every create, update, delete and copy of an existing entry, and rejects
  requests for an unknown id.
\<close>

type_synonym demo_store = "(string \<times> schema_file) list"

definition demo_entry :: "string \<Rightarrow> string \<Rightarrow> string \<Rightarrow> int option \<Rightarrow> schema_file" where
  "demo_entry i n m sz =
     \<lparr>file_id = i, file_name = n, file_mimeType = m, file_size = sz,
      file_modifiedTime = Some 0, file_createdTime = Some 0\<rparr>"

definition demo_find :: "string \<Rightarrow> demo_store \<Rightarrow> (string \<times> schema_file) option" where
  "demo_find fileId r = find (\<lambda>pe. file_id (snd pe) = fileId) r"

definition demo_get :: "string \<Rightarrow> demo_store \<Rightarrow> (string + schema_file) \<times> demo_store" where
  "demo_get fileId r =
     (case demo_find fileId r of None \<Rightarrow> (Inl (''File not found: '' @ fileId), r) | Some pe \<Rightarrow> (Inr (snd pe), r))"

definition demo_get_media :: "string \<Rightarrow> demo_store \<Rightarrow> (string + string) \<times> demo_store" where
  "demo_get_media fileId r =
     (case demo_find fileId r of None \<Rightarrow> (Inl (''File not found: '' @ fileId), r) | Some pe \<Rightarrow> (Inr ''Hello, World!'', r))"

definition sq_free :: "string \<Rightarrow> bool" where
  "sq_free x \<longleftrightarrow> CHR 0x27 \<notin> set x"

text \<open>The number of quotes in a string.\<close>

definition quotes :: "string \<Rightarrow> nat" where
  "quotes x = length (filter (\<lambda>c. c = CHR 0x27) x)"

definition demo_list :: "list_params \<Rightarrow> demo_store \<Rightarrow> (string + schema_file list) \<times> demo_store" where
  "demo_list ps r =
     (Inr (map snd (filter (\<lambda>pe. sq_free (fst pe) \<and> sq_free (file_name (snd pe)) \<and>
                                  (q ps = q (name_query (fst pe) (file_name (snd pe)))
                                   \<or> q ps = q (children_query (fst pe)))) r)), r)"

definition demo_fresh_id :: "demo_store \<Rightarrow> string" where
  "demo_fresh_id r = CHR ''N'' # replicate (length r) (CHR ''+'')"

definition demo_create :: "create_params \<Rightarrow> demo_store \<Rightarrow> (string + schema_file) \<times> demo_store" where
  "demo_create ps r =
     (let e = demo_entry (demo_fresh_id r) (create_name ps)
                (case create_mimeType ps of None \<Rightarrow> ''text/plain'' | Some m \<Rightarrow> m)
                (case create_body ps of None \<Rightarrow> None | Some c \<Rightarrow> Some (int (length c)))
      in (Inr e, r @ [(case create_parents ps of [] \<Rightarrow> [] | p # _ \<Rightarrow> p, e)]))"

definition demo_update :: "update_params \<Rightarrow> demo_store \<Rightarrow> (string + schema_file) \<times> demo_store" where
  "demo_update ps r =
     (case demo_find (update_fileId ps) r of
        None \<Rightarrow> (Inl (''File not found: '' @ update_fileId ps), r)
      | Some pe \<Rightarrow>
          (let e = (snd pe)\<lparr>file_name := update_name ps,
                            file_size := (case update_body ps of None \<Rightarrow> file_size (snd pe)
                                          | Some c \<Rightarrow> Some (int (length c)))\<rparr>;
               p = (case addParents ps of None \<Rightarrow> fst pe | Some np \<Rightarrow> np)
           in (Inr e, map (\<lambda>pe0. if file_id (snd pe0) = update_fileId ps then (p, e) else pe0) r)))"

definition demo_delete :: "string \<Rightarrow> demo_store \<Rightarrow> (string + unit) \<times> demo_store" where
  "demo_delete fileId r =
     (case demo_find fileId r of
        None \<Rightarrow> (Inl (''File not found: '' @ fileId), r)
      | Some pe \<Rightarrow> (Inr (), filter (\<lambda>pe0. file_id (snd pe0) \<noteq> fileId) r))"

definition demo_copy :: "copy_params \<Rightarrow> demo_store \<Rightarrow> (string + schema_file) \<times> demo_store" where
  "demo_copy ps r =
     (case demo_find (copy_fileId ps) r of
        None \<Rightarrow> (Inl (''File not found: '' @ copy_fileId ps), r)
      | Some pe \<Rightarrow>
          (let e = (snd pe)\<lparr>file_id := demo_fresh_id r, file_name := copy_name ps\<rparr>
           in (Inr e, r @ [(case copy_parents ps of [] \<Rightarrow> [] | p # _ \<Rightarrow> p, e)])))"

definition demo_api :: "demo_store drive_api" where
  "demo_api =
     \<lparr>files_get = demo_get, files_get_media = demo_get_media, files_list = demo_list,
      files_create = demo_create, files_update = demo_update, files_delete = demo_delete,
      files_copy = demo_copy\<rparr>"

text \<open>The same store out of reach: every request is rejected.\<close>

definition demo_offline :: "demo_store drive_api" where
  "demo_offline =
     \<lparr>files_get = (\<lambda>_ r. (Inl ''Service unavailable'', r)),
      files_get_media = (\<lambda>_ r. (Inl ''Service unavailable'', r)),
      files_list = (\<lambda>_ r. (Inl ''Service unavailable'', r)),
      files_create = (\<lambda>_ r. (Inl ''Service unavailable'', r)),
      files_update = (\<lambda>_ r. (Inl ''Service unavailable'', r)),
      files_delete = (\<lambda>_ r. (Inl ''Service unavailable'', r)),
      files_copy = (\<lambda>_ r. (Inl ''Service unavailable'', r))\<rparr>"

text \<open>The same store without the right to change it: every change is rejected.\<close>

definition demo_readonly :: "demo_store drive_api" where
  "demo_readonly =
     demo_api\<lparr>files_create := (\<lambda>_ r. (Inl ''Insufficient permissions'', r)),
              files_update := (\<lambda>_ r. (Inl ''Insufficient permissions'', r)),
              files_delete := (\<lambda>_ r. (Inl ''Insufficient permissions'', r)),
              files_copy := (\<lambda>_ r. (Inl ''Insufficient permissions'', r))\<rparr>"

definition demo_store0 :: demo_store where
  "demo_store0 =
     [([], demo_entry ''R'' ''My Drive'' DriveMimeTypes_Folder None),
      (''R'', demo_entry ''A'' ''a'' DriveMimeTypes_Folder None),
      (''R'', demo_entry ''F'' ''file.txt'' ''text/plain'' (Some 5)),
      (''A'', demo_entry ''X'' ''x'' ''text/plain'' (Some 10)),
      (''A'', demo_entry ''Y'' ''y'' ''text/plain'' (Some 20))]"

definition demo_options :: gdrive_options where
  "demo_options = \<lparr>opt_root = ''R'', auth_email = ''user@example.com'', auth_privateKey = ''key''\<rparr>"

definition demo_connected :: "demo_store gdrive" where
  "demo_connected = snd (connect demo_api 0 (new_GDrive demo_options demo_store0))"



section \<open>Properties\<close>

subsection \<open>Store lemmas\<close>

lemma extends_refl: "extends s s"
  by (simp add: extends_def)

lemma extends_trans: "extends s s1 \<Longrightarrow> extends s1 s2 \<Longrightarrow> extends s s2"
  unfolding extends_def
  by (auto intro: prefix_order.trans)

lemma children_new [simp]: "children (node_of_file f) = None" "children (node_of_file_dflt f) = None"
  "children (node_of_folder f) = None"
  by (simp_all add: node_of_file_def node_of_file_dflt_def node_of_folder_def new_Node_def)

lemma parent_new [simp]: "parent (node_of_file f) = None" "parent (node_of_file_dflt f) = None"
  "parent (node_of_folder f) = None"
  by (simp_all add: node_of_file_def node_of_file_dflt_def node_of_folder_def new_Node_def)

lemma call_list_E:
  assumes "call_list D ps s = (res, s1)"
  shows "heap s1 = heap s" "nextAddr s1 = nextAddr s" "rootNode s1 = rootNode s"
  using assms by (auto simp: call_list_def split: prod.splits)
lemma call_get_E:
  assumes "call_get D ps s = (res, s1)"
  shows "heap s1 = heap s" "nextAddr s1 = nextAddr s" "rootNode s1 = rootNode s"
  using assms by (auto simp: call_get_def split: prod.splits)
lemma call_get_media_E:
  assumes "call_get_media D ps s = (res, s1)"
  shows "heap s1 = heap s" "nextAddr s1 = nextAddr s" "rootNode s1 = rootNode s"
  using assms by (auto simp: call_get_media_def split: prod.splits)
lemma call_create_E:
  assumes "call_create D ps s = (res, s1)"
  shows "heap s1 = heap s" "nextAddr s1 = nextAddr s" "rootNode s1 = rootNode s"
  using assms by (auto simp: call_create_def split: prod.splits)
lemma call_update_E:
  assumes "call_update D ps s = (res, s1)"
  shows "heap s1 = heap s" "nextAddr s1 = nextAddr s" "rootNode s1 = rootNode s"
  using assms by (auto simp: call_update_def split: prod.splits)
lemma call_delete_E:
  assumes "call_delete D ps s = (res, s1)"
  shows "heap s1 = heap s" "nextAddr s1 = nextAddr s" "rootNode s1 = rootNode s"
  using assms by (auto simp: call_delete_def split: prod.splits)
lemma call_copy_E:
  assumes "call_copy D ps s = (res, s1)"
  shows "heap s1 = heap s" "nextAddr s1 = nextAddr s" "rootNode s1 = rootNode s"
  using assms by (auto simp: call_copy_def split: prod.splits)

lemma same_store_valid: "same_store s s' \<Longrightarrow> valid s \<Longrightarrow> valid s'"
  by (simp add: same_store_def valid_def)
lemma same_store_fc: "same_store s s' \<Longrightarrow> files_childless s \<Longrightarrow> files_childless s'"
  by (simp add: same_store_def files_childless_def)
lemma same_store_extends: "same_store s s' \<Longrightarrow> extends s s'"
  by (simp add: same_store_def extends_def)

lemma coe_simps [simp]:
  "children_or_empty (n\<lparr>children := Some cs\<rparr>) = cs"
  "children_or_empty (n\<lparr>parent := p\<rparr>) = children_or_empty n"
  "children_or_empty (n\<lparr>name := x\<rparr>) = children_or_empty n"
  by (simp_all add: children_or_empty_def)

lemma coe_None: "children nd = None \<Longrightarrow> children_or_empty nd = []"
  by (simp add: children_or_empty_def)

lemma alloc_valid:
  "valid s \<Longrightarrow> children nd = None \<Longrightarrow> parent nd = None \<Longrightarrow> alloc nd s = (a, s') \<Longrightarrow>
   valid s' \<and> a = nextAddr s \<and> nextAddr s' = Suc (nextAddr s) \<and> extends s s' \<and> heap s' a = nd"
  unfolding valid_def alloc_def extends_def
  by (auto simp: less_Suc_eq coe_None split: if_splits)

lemma alloc_fc:
  "files_childless s \<Longrightarrow> children nd = None \<Longrightarrow> alloc nd s = (a, s') \<Longrightarrow> files_childless s'"
  by (auto simp: files_childless_def alloc_def)

lemma addChild_valid:
  "valid s \<Longrightarrow> this < nextAddr s \<Longrightarrow> child < nextAddr s \<Longrightarrow> valid (addChild this child s)"
  unfolding valid_def addChild_def upd_node_def
  by (auto split: if_splits)

lemma addChild_fc: "files_childless s \<Longrightarrow> files_childless (addChild this child s)"
  by (auto simp: files_childless_def addChild_def upd_node_def isFile_def isDirectory_def)

lemma addChild_nextAddr [simp]: "nextAddr (addChild this child s) = nextAddr s"
  "rootNode (addChild this child s) = rootNode s"
  by (simp_all add: addChild_def upd_node_def)


lemma addChild_extends:
  "extends s0 s \<Longrightarrow> nextAddr s0 \<le> child \<Longrightarrow> extends s0 (addChild this child s)"
  unfolding extends_def addChild_def upd_node_def
  by (auto simp: prefix_def)

lemma call_list_same: "call_list D ps s = (res, s1) \<Longrightarrow> same_store s s1"
  by (auto simp: call_list_def same_store_def split: prod.splits)

lemma find_child_valid:
  assumes "valid s" "children (heap s cur) = Some cs" "find P cs = Some c"
  shows "c < nextAddr s"
proof -
  from assms(3) have "c \<in> set cs" by (auto simp: find_Some_iff)
  moreover have "children_or_empty (heap s cur) = cs"
    using assms(2) by (simp add: children_or_empty_def)
  ultimately show ?thesis using assms(1) unfolding valid_def by blast
qed

lemma resolve_loop_inv:
  "valid s \<Longrightarrow> cur < nextAddr s \<Longrightarrow> resolve_loop D path parts cur s = (res, s') \<Longrightarrow>
   valid s' \<and> extends s s' \<and> (\<forall>n. res = Inr n \<longrightarrow> n < nextAddr s')"
proof (induction parts arbitrary: cur s)
  case Nil
  then show ?case by (auto simp: extends_refl)
next
  case (Cons part parts)
  show ?case
  proof (cases "isDirectory (heap s cur)")
    case False
    with Cons.prems show ?thesis by (auto simp: extends_refl)
  next
    case dir: True
    show ?thesis
    proof (cases "find_child (heap s) cur part")
      case (Some c)
      then have "c < nextAddr s"
        using find_child_valid[OF Cons.prems(1)] by (auto simp: find_child_def split: option.splits)
      moreover have "resolve_loop D path parts c s = (res, s')"
        using Cons.prems(3) dir Some by simp
      ultimately show ?thesis using Cons.IH Cons.prems(1) by blast
    next
      case None
      obtain r1 s1 where cl: "call_list D (name_query (id' (heap s cur)) part) s = (r1, s1)"
        by (cases "call_list D (name_query (id' (heap s cur)) part) s")
      have ss: "same_store s s1" using cl by (rule call_list_same)
      have v1: "valid s1" using ss Cons.prems(1) by (rule same_store_valid)
      have e1: "extends s s1" using ss by (rule same_store_extends)
      have n1: "nextAddr s1 = nextAddr s" using ss by (simp add: same_store_def)
      show ?thesis
      proof (cases r1)
        case (Inl m)
        with Cons.prems(3) dir None cl v1 e1 show ?thesis by auto
      next
        case (Inr files)
        show ?thesis
        proof (cases files)
          case Nil
          with Cons.prems(3) dir None cl v1 e1 Inr show ?thesis by auto
        next
          case (Cons f fs)
          obtain a s2 where al: "alloc (node_of_file_dflt f) s1 = (a, s2)"
            by (cases "alloc (node_of_file_dflt f) s1")
          from alloc_valid[OF v1 _ _ al]
          have v2: "valid s2" and a: "a = nextAddr s1" and n2: "nextAddr s2 = Suc (nextAddr s1)"
            and e2: "extends s1 s2" by simp_all
          let ?s3 = "addChild cur a s2"
          have v3: "valid ?s3"
            using v2 Cons.prems(2) n1 n2 a by (intro addChild_valid) simp_all
          have e3: "extends s ?s3"
            using extends_trans[OF e1 e2] a n1 by (intro addChild_extends) simp_all
          have rl: "resolve_loop D path parts a ?s3 = (res, s')"
            using Cons.prems(3) dir None cl Inr Cons al by simp
          have "a < nextAddr ?s3" using a n2 by simp
          from Cons.IH[OF v3 this rl] e3 show ?thesis
            by (auto intro: extends_trans)
        qed
      qed
    qed
  qed
qed

subsection \<open>Evaluation of the examples\<close>

lemma to_double_small [simp]: "\<bar>x\<bar> \<le> 2 ^ 53 \<Longrightarrow> to_double x = Number x"
  by (simp add: to_double_def)

lemmas demo_defs = demo_connected_def demo_offline_def demo_readonly_def demo_api_def demo_store0_def demo_options_def demo_copy_def
  demo_delete_def demo_update_def demo_create_def demo_fresh_id_def demo_list_def demo_get_media_def
  demo_get_def demo_find_def demo_entry_def sq_free_def Let_def

lemmas model_defs = connect_def autoConnect_def call_get_def call_list_def call_update_def
  call_create_def call_delete_def call_copy_def call_get_media_def new_GDrive_def alloc_def
  node_of_file_dflt_def node_of_file_def node_of_folder_def new_Node_def parseInt_dflt_def
  parseInt_or0_def or0_def new_Date_def resolvePath_def path_parts_def isDirectory_def isFile_def
  DriveMimeTypes_Folder_def name_query_def children_query_def sq_def addChild_def upd_node_def
  children_or_empty_def removeChild_def CONNECTION_TIMEOUT_def find_child_def

subsection \<open>The resolution loop\<close>

lemma path_parts_root: "path_parts ''/'' = []"
  by (simp add: path_parts_def)

lemma resolvePath_loop:
  "rootNode s = Some r \<Longrightarrow> resolvePath D path s = resolve_loop D path (path_parts path) r s"
  by (simp add: resolvePath_def path_parts_root)

lemma resolve_loop_append:
  "resolve_loop D path (pre @ rest) cur s =
     (case resolve_loop D path pre cur s of
        (Inl m, s1) \<Rightarrow> (Inl m, s1)
      | (Inr n, s1) \<Rightarrow> resolve_loop D path rest n s1)"
proof (induction pre arbitrary: cur s)
  case Nil
  show ?case by simp
next
  case (Cons p pre)
  show ?case
    by (simp add: Cons.IH split: option.splits prod.splits sum.splits list.splits)
qed

text \<open>
  C7. A path that passes through a file: when the segments \<open>pre\<close> resolve to a node that
  is not a folder and segments remain, resolution fails with the message
  \<^verbatim>\<open><name> is not a directory\<close> in the very state the prefix left, so no request is sent for
  the remaining segments. When the last segment names a file, resolution returns it: the
  cached child of that name, or else the node built from the first entry the store lists.
\<close>

theorem resolvePath_through_file:
  "(rootNode s = Some r \<and> path_parts path = pre @ rest \<and> rest \<noteq> [] \<and>
    resolve_loop D path pre r s = (Inr f, s1) \<and> isFile (heap s1 f)
    \<longrightarrow> resolvePath D path s = (Inl (name (heap s1 f) @ '' is not a directory''), s1))
   \<and>
   (rootNode s = Some r \<and> path_parts path = pre @ [part] \<and>
    resolve_loop D path pre r s = (Inr d, s1) \<and> isDirectory (heap s1 d) \<and>
    find_child (heap s1) d part = Some f \<and> isFile (heap s1 f)
    \<longrightarrow> resolvePath D path s = (Inr f, s1))
   \<and>
   (rootNode s = Some r \<and> path_parts path = pre @ [part] \<and>
    resolve_loop D path pre r s = (Inr d, s1) \<and> isDirectory (heap s1 d) \<and>
    find_child (heap s1) d part = None \<and>
    call_list D (name_query (id' (heap s1 d)) part) s1 = (Inr (e # es), s2) \<and>
    file_mimeType e \<noteq> DriveMimeTypes_Folder
    \<longrightarrow> resolvePath D path s =
          (Inr (nextAddr s2), addChild d (nextAddr s2) (snd (alloc (node_of_file_dflt e) s2))) \<and>
        isFile (node_of_file_dflt e))"
proof (intro conjI impI)
  assume a: "rootNode s = Some r \<and> path_parts path = pre @ rest \<and> rest \<noteq> [] \<and>
    resolve_loop D path pre r s = (Inr f, s1) \<and> isFile (heap s1 f)"
  then obtain p ps where rest: "rest = p # ps" by (cases rest) auto
  have "resolve_loop D path (pre @ rest) r s = resolve_loop D path rest f s1"
    using a by (simp add: resolve_loop_append)
  also have "\<dots> = (Inl (name (heap s1 f) @ '' is not a directory''), s1)"
    using a rest by (simp add: isFile_def)
  finally show "resolvePath D path s = (Inl (name (heap s1 f) @ '' is not a directory''), s1)"
    using a by (simp add: resolvePath_loop)
next
  assume a: "rootNode s = Some r \<and> path_parts path = pre @ [part] \<and>
    resolve_loop D path pre r s = (Inr d, s1) \<and> isDirectory (heap s1 d) \<and>
    find_child (heap s1) d part = Some f \<and> isFile (heap s1 f)"
  have "resolve_loop D path (pre @ [part]) r s = resolve_loop D path [part] d s1"
    using a by (simp add: resolve_loop_append)
  also have "\<dots> = (Inr f, s1)"
    using a by simp
  finally show "resolvePath D path s = (Inr f, s1)"
    using a by (simp add: resolvePath_loop)
next
  assume a: "rootNode s = Some r \<and> path_parts path = pre @ [part] \<and>
    resolve_loop D path pre r s = (Inr d, s1) \<and> isDirectory (heap s1 d) \<and>
    find_child (heap s1) d part = None \<and>
    call_list D (name_query (id' (heap s1 d)) part) s1 = (Inr (e # es), s2) \<and>
    file_mimeType e \<noteq> DriveMimeTypes_Folder"
  have "resolve_loop D path (pre @ [part]) r s = resolve_loop D path [part] d s1"
    using a by (simp add: resolve_loop_append)
  also have "\<dots> = (Inr (nextAddr s2), addChild d (nextAddr s2) (snd (alloc (node_of_file_dflt e) s2)))"
    using a by (simp add: alloc_def)
  finally show "resolvePath D path s =
      (Inr (nextAddr s2), addChild d (nextAddr s2) (snd (alloc (node_of_file_dflt e) s2)))"
    using a by (simp add: resolvePath_loop)
  show "isFile (node_of_file_dflt e)"
    using a by (simp add: isFile_def isDirectory_def node_of_file_dflt_def new_Node_def)
qed

theorem resolvePath_through_file_witness:
  "resolvePath demo_api ''/file.txt/child'' demo_connected =
     (Inl ''file.txt is not a directory'', snd (resolvePath demo_api ''/file.txt'' demo_connected)) \<and>
   calls (snd (resolvePath demo_api ''/file.txt/child'' demo_connected)) =
     calls (snd (resolvePath demo_api ''/file.txt'' demo_connected)) \<and>
   fst (resolvePath demo_api ''/file.txt'' demo_connected) = Inr 1 \<and>
   fst (resolvePath demo_api ''/file.txt'' (snd (resolvePath demo_api ''/file.txt'' demo_connected))) = Inr 1"
proof -
  let ?s = "demo_connected"
  let ?s1 = "snd (resolvePath demo_api ''/file.txt'' ?s)"
  have root: "rootNode ?s = Some 0"
    by (simp add: demo_defs model_defs)
  have pre: "resolve_loop demo_api ''/file.txt/child'' [''file.txt''] 0 ?s = (Inr 1, ?s1)"
    by (simp add: demo_defs model_defs)
  have pp: "path_parts ''/file.txt/child'' = [''file.txt''] @ [''child'']"
    by (simp add: path_parts_def)
  have isf: "isFile (heap ?s1 1)" "name (heap ?s1 1) = ''file.txt''"
    by (simp_all add: demo_defs model_defs)
  have 1: "resolvePath demo_api ''/file.txt/child'' ?s = (Inl ''file.txt is not a directory'', ?s1)"
    using resolvePath_through_file[where s = ?s and r = 0 and path = "''/file.txt/child''"
        and pre = "[''file.txt'']" and rest = "[''child'']" and D = demo_api and f = 1 and ?s1.0 = ?s1]
      root pre pp isf
    by simp
  have pp2: "path_parts ''/file.txt'' = [] @ [''file.txt'']"
    by (simp add: path_parts_def)
  have dir: "isDirectory (heap ?s 0)" "find_child (heap ?s) 0 ''file.txt'' = None"
    by (simp_all add: demo_defs model_defs)
  have cl: "call_list demo_api (name_query (id' (heap ?s 0)) ''file.txt'') ?s =
      (Inr [demo_entry ''F'' ''file.txt'' ''text/plain'' (Some 5)],
       ?s\<lparr>calls := Suc (calls ?s)\<rparr>)"
    by (simp add: demo_defs model_defs)
  have 2: "fst (resolvePath demo_api ''/file.txt'' ?s) = Inr 1"
    using resolvePath_through_file[where s = ?s and r = 0 and path = "''/file.txt''"
        and pre = "[]" and D = demo_api and part = "''file.txt''" and d = 0 and ?s1.0 = ?s
        and e = "demo_entry ''F'' ''file.txt'' ''text/plain'' (Some 5)" and es = "[]"
        and ?s2.0 = "?s\<lparr>calls := Suc (calls ?s)\<rparr>"]
      root pp2 dir cl
    by (simp add: demo_defs model_defs)
  have root1: "rootNode ?s1 = Some 0" "isDirectory (heap ?s1 0)"
    "find_child (heap ?s1) 0 ''file.txt'' = Some 1"
    by (simp_all add: demo_defs model_defs)
  have 3: "fst (resolvePath demo_api ''/file.txt'' ?s1) = Inr 1"
    using resolvePath_through_file[where s = ?s1 and r = 0 and path = "''/file.txt''"
        and pre = "[]" and D = demo_api and part = "''file.txt''" and d = 0 and ?s1.0 = ?s1 and f = 1]
      root1 pp2 isf
    by simp
  from 1 2 3 show ?thesis by simp
qed

text \<open>
  C3 (amended). When the store lists no entry for a segment, resolution fails with the
  message \<^verbatim>\<open>Path not found: \<close> followed by the whole requested path, whichever segment was
  missing; the state is the one the request left.
\<close>

theorem resolvePath_not_found:
  assumes "rootNode s = Some r" and "path_parts path = pre @ part # rest"
    and "resolve_loop D path pre r s = (Inr d, s1)" and "isDirectory (heap s1 d)"
    and "find_child (heap s1) d part = None"
    and "call_list D (name_query (id' (heap s1 d)) part) s1 = (Inr [], s2)"
  shows "resolvePath D path s = (Inl (''Path not found: '' @ path), s2)"
proof -
  have "resolve_loop D path (pre @ part # rest) r s = resolve_loop D path (part # rest) d s1"
    using assms(3) by (simp add: resolve_loop_append)
  also have "\<dots> = (Inl (''Path not found: '' @ path), s2)"
    using assms(4,5,6) by simp
  finally show ?thesis
    using assms(1,2) by (simp add: resolvePath_loop)
qed

theorem resolvePath_not_found_witness:
  "fst (resolvePath demo_api ''/a/nonexistent/child'' demo_connected) =
     Inl ''Path not found: /a/nonexistent/child''"
proof -
  let ?s = "demo_connected"
  let ?s1 = "snd (resolvePath demo_api ''/a'' ?s)"
  have root: "rootNode ?s = Some 0"
    by (simp add: demo_defs model_defs)
  have pp: "path_parts ''/a/nonexistent/child'' = [''a''] @ ''nonexistent'' # [''child'']"
    by (simp add: path_parts_def)
  have pre: "resolve_loop demo_api ''/a/nonexistent/child'' [''a''] 0 ?s = (Inr 1, ?s1)"
    by (simp add: demo_defs model_defs)
  have dir: "isDirectory (heap ?s1 1)" "find_child (heap ?s1) 1 ''nonexistent'' = None"
    by (simp_all add: demo_defs model_defs)
  have cl: "call_list demo_api (name_query (id' (heap ?s1 1)) ''nonexistent'') ?s1 =
      (Inr [], ?s1\<lparr>calls := Suc (calls ?s1)\<rparr>)"
    by (simp add: demo_defs model_defs)
  show ?thesis
    using resolvePath_not_found[OF root pp pre dir cl] by simp
qed

theorem resolvePath_not_found_counterexample:
  "fst (resolvePath demo_api ''/nonexistent/child'' demo_connected) =
     Inl (''Path not found: '' @ ''/nonexistent/child'') \<and>
   fst (resolvePath demo_api ''/nonexistent/child'' demo_connected) \<noteq>
     Inl (''Path not found: '' @ ''/'') \<and>
   find_child (heap demo_connected) (the (rootNode demo_connected)) ''nonexistent'' = None \<and>
   fst (call_list demo_api (name_query (id' (heap demo_connected 0)) ''nonexistent'') demo_connected) = Inr []"
  by (simp add: demo_defs model_defs)

subsection \<open>The invariants hold in every reachable state\<close>

lemma same_store_inv: "same_store s s' \<Longrightarrow> inv s \<Longrightarrow> inv s'"
  by (simp add: inv_def same_store_valid same_store_fc)

lemma call_get_same: "call_get D ps s = (res, s1) \<Longrightarrow> same_store s s1"
  by (auto simp: call_get_def same_store_def split: prod.splits)
lemma call_get_media_same: "call_get_media D ps s = (res, s1) \<Longrightarrow> same_store s s1"
  by (auto simp: call_get_media_def same_store_def split: prod.splits)
lemma call_create_same: "call_create D ps s = (res, s1) \<Longrightarrow> same_store s s1"
  by (auto simp: call_create_def same_store_def split: prod.splits)
lemma call_update_same: "call_update D ps s = (res, s1) \<Longrightarrow> same_store s s1"
  by (auto simp: call_update_def same_store_def split: prod.splits)
lemma call_delete_same: "call_delete D ps s = (res, s1) \<Longrightarrow> same_store s s1"
  by (auto simp: call_delete_def same_store_def split: prod.splits)
lemma call_copy_same: "call_copy D ps s = (res, s1) \<Longrightarrow> same_store s s1"
  by (auto simp: call_copy_def same_store_def split: prod.splits)

lemma alloc_inv:
  assumes "inv s" "children nd = None" "parent nd = None" "alloc nd s = (a, s')"
  shows "inv s' \<and> a = nextAddr s \<and> nextAddr s' = Suc (nextAddr s) \<and> extends s s' \<and> heap s' a = nd"
  using alloc_valid[OF _ assms(2,3,4)] alloc_fc[OF _ assms(2,4)] assms(1)
  by (auto simp: inv_def)

lemma addChild_inv:
  "inv s \<Longrightarrow> this < nextAddr s \<Longrightarrow> child < nextAddr s \<Longrightarrow> inv (addChild this child s)"
  by (simp add: inv_def addChild_valid addChild_fc)

lemma resolve_loop_fc:
  "files_childless s \<Longrightarrow> resolve_loop D path parts cur s = (res, s') \<Longrightarrow> files_childless s'"
proof (induction parts arbitrary: cur s)
  case Nil
  then show ?case by auto
next
  case (Cons part parts)
  show ?case
  proof (cases "isDirectory (heap s cur)")
    case False
    with Cons.prems show ?thesis by auto
  next
    case dir: True
    show ?thesis
    proof (cases "find_child (heap s) cur part")
      case (Some c)
      then have "resolve_loop D path parts c s = (res, s')"
        using Cons.prems(2) dir by simp
      then show ?thesis using Cons.IH Cons.prems(1) by blast
    next
      case None
      obtain r1 s1 where cl: "call_list D (name_query (id' (heap s cur)) part) s = (r1, s1)"
        by (cases "call_list D (name_query (id' (heap s cur)) part) s")
      have f1: "files_childless s1"
        using call_list_same[OF cl] Cons.prems(1) by (rule same_store_fc)
      show ?thesis
      proof (cases r1)
        case (Inl m)
        with Cons.prems(2) dir None cl f1 show ?thesis by auto
      next
        case (Inr files)
        show ?thesis
        proof (cases files)
          case Nil
          with Cons.prems(2) dir None cl f1 Inr show ?thesis by auto
        next
          case (Cons f fs)
          obtain a s2 where al: "alloc (node_of_file_dflt f) s1 = (a, s2)"
            by (cases "alloc (node_of_file_dflt f) s1")
          have f2: "files_childless s2"
            using f1 _ al by (rule alloc_fc) simp
          have f3: "files_childless (addChild cur a s2)"
            using f2 by (rule addChild_fc)
          have rl: "resolve_loop D path parts a (addChild cur a s2) = (res, s')"
            using Cons.prems(2) dir None cl Inr Cons al by simp
          from Cons.IH[OF f3 rl] show ?thesis .
        qed
      qed
    qed
  qed
qed

lemma resolvePath_inv:
  assumes "inv s" "resolvePath D path s = (res, s')"
  shows "inv s'" "extends s s'" "\<And>n. res = Inr n \<Longrightarrow> n < nextAddr s'"
proof -
  show "inv s'" "extends s s'" "\<And>n. res = Inr n \<Longrightarrow> n < nextAddr s'"
  proof (atomize (full), cases "rootNode s")
    case None
    with assms show "inv s' \<and> extends s s' \<and> (\<forall>n. res = Inr n \<longrightarrow> n < nextAddr s')"
      by (auto simp: resolvePath_def extends_refl)
  next
    case (Some r)
    then have r: "r < nextAddr s" using assms(1) by (simp add: inv_def valid_def)
    have rl: "resolve_loop D path (path_parts path) r s = (res, s')"
      using assms(2) Some by (simp add: resolvePath_loop)
    from resolve_loop_inv[OF _ r rl] resolve_loop_fc[OF _ rl] assms(1)
    show "inv s' \<and> extends s s' \<and> (\<forall>n. res = Inr n \<longrightarrow> n < nextAddr s')"
      by (simp add: inv_def)
  qed
qed

lemma new_GDrive_inv: "inv (new_GDrive opts r)"
  by (simp add: inv_def valid_def files_childless_def new_GDrive_def new_Node_def children_or_empty_def)

lemma set_rootNode_inv: "inv s \<Longrightarrow> a < nextAddr s \<Longrightarrow> inv (s\<lparr>rootNode := Some a\<rparr>)"
  by (simp add: inv_def valid_def files_childless_def)

lemma set_session_inv: "inv s \<Longrightarrow> inv (s\<lparr>connected := c, lastConnect := t\<rparr>)"
  by (simp add: inv_def valid_def files_childless_def)

lemma set_drive_inv: "inv s \<Longrightarrow> inv (s\<lparr>drive := r\<rparr>)"
  by (simp add: inv_def valid_def files_childless_def)

lemma connect_inv: "inv s \<Longrightarrow> connect D now s = (res, s') \<Longrightarrow> inv s'"
proof -
  assume i: "inv s" and c: "connect D now s = (res, s')"
  let ?s0 = "s\<lparr>connected := True, lastConnect := Some now\<rparr>"
  show ?thesis
  proof (cases "auth_email (options s) = [] \<or> auth_privateKey (options s) = []")
    case True
    with c i show ?thesis by (auto simp: connect_def)
  next
    case cred: False
    obtain r1 s1 where cg: "call_get D (opt_root (options s)) ?s0 = (r1, s1)"
      by (cases "call_get D (opt_root (options s)) ?s0")
    have i1: "inv s1"
      using call_get_same[OF cg] set_session_inv[OF i] by (rule same_store_inv)
    show ?thesis
    proof (cases r1)
      case (Inl m)
      with c cred cg i1 show ?thesis by (auto simp: connect_def)
    next
      case (Inr data)
      show ?thesis
      proof (cases "file_id data = [] \<or> file_name data = []")
        case True
        with c cred cg i1 Inr show ?thesis by (auto simp: connect_def)
      next
        case False
        obtain a s2 where al: "alloc (node_of_file_dflt data) s1 = (a, s2)"
          by (cases "alloc (node_of_file_dflt data) s1")
        from alloc_inv[OF i1 _ _ al] have "inv s2" "a < nextAddr s2" by simp_all
        then have "inv (s2\<lparr>rootNode := Some a\<rparr>)" by (rule set_rootNode_inv)
        moreover have "s' = s2\<lparr>rootNode := Some a\<rparr>"
          using c cred cg Inr False al by (auto simp: connect_def)
        ultimately show ?thesis by simp
      qed
    qed
  qed
qed

lemma autoConnect_inv: "inv s \<Longrightarrow> autoConnect D now s = (res, s') \<Longrightarrow> inv s'"
  by (auto simp: autoConnect_def dest: connect_inv split: if_splits)

lemma operation_inv:
  assumes "\<And>s x s'. inv s \<Longrightarrow> body s = (x, s') \<Longrightarrow> inv s'" and "inv s"
  shows "inv (snd (operation D now pre body s))"
proof -
  obtain r1 s1 where ac: "autoConnect D now s = (r1, s1)"
    by (cases "autoConnect D now s")
  have i1: "inv s1" using autoConnect_inv[OF assms(2) ac] .
  obtain r2 s2 where b: "body s1 = (r2, s2)" by (cases "body s1")
  have i2: "inv s2" using assms(1)[OF i1 b] .
  show ?thesis
    using ac b i1 i2 by (auto simp: operation_def rethrow_def split: sum.splits)
qed


lemma extends_lt: "extends s s' \<Longrightarrow> a < nextAddr s \<Longrightarrow> a < nextAddr s'"
  by (auto simp: extends_def)

lemma same_store_lt: "same_store s s' \<Longrightarrow> a < nextAddr s \<Longrightarrow> a < nextAddr s'"
  by (auto simp: same_store_def)

lemma extends_mimeType: "extends s s' \<Longrightarrow> a < nextAddr s \<Longrightarrow> isDirectory (heap s' a) = isDirectory (heap s a)"
  by (auto simp: extends_def isDirectory_def)

lemma readdir_map_inv:
  "inv s \<Longrightarrow> node < nextAddr s \<Longrightarrow> readdir_map node files s = (cs, s') \<Longrightarrow>
   inv s' \<and> extends s s' \<and> (\<forall>c \<in> set cs. c < nextAddr s')"
proof (induction files arbitrary: s cs s')
  case Nil
  then show ?case by (auto simp: extends_refl)
next
  case (Cons f files)
  obtain a s1 where al: "alloc (node_of_file f) s = (a, s1)"
    by (cases "alloc (node_of_file f) s")
  from alloc_inv[OF Cons.prems(1) _ _ al]
  have i1: "inv s1" and a: "a = nextAddr s" and n1: "nextAddr s1 = Suc (nextAddr s)"
    and e1: "extends s s1" by simp_all
  let ?s2 = "addChild node a s1"
  have i2: "inv ?s2" using i1 Cons.prems(2) a n1 by (intro addChild_inv) simp_all
  have e2: "extends s ?s2" using e1 a by (intro addChild_extends) simp_all
  obtain cs' s3 where rm: "readdir_map node files ?s2 = (cs', s3)"
    by (cases "readdir_map node files ?s2")
  have n2: "node < nextAddr ?s2" using Cons.prems(2) n1 by simp
  from Cons.IH[OF i2 n2 rm]
  have i3: "inv s3" and e3: "extends ?s2 s3" and c3: "\<forall>c \<in> set cs'. c < nextAddr s3" by simp_all
  have res: "cs = a # cs'" "s' = s3"
    using Cons.prems(3) al rm by simp_all
  have "a < nextAddr s3" using e3 a n1 by (intro extends_lt[OF e3]) simp
  with i3 c3 res extends_trans[OF e2 e3] show ?case by simp
qed

lemma search_map_inv:
  "inv s \<Longrightarrow> search_map files s = (cs, s') \<Longrightarrow> inv s'"
proof (induction files arbitrary: s cs s')
  case Nil
  then show ?case by auto
next
  case (Cons f files)
  obtain a s1 where al: "alloc (node_of_file f) s = (a, s1)"
    by (cases "alloc (node_of_file f) s")
  from alloc_inv[OF Cons.prems(1) _ _ al] have i1: "inv s1" by simp
  obtain cs' s3 where rm: "search_map files s1 = (cs', s3)"
    by (cases "search_map files s1")
  have "s' = s3" using Cons.prems(2) al rm by simp
  with Cons.IH[OF i1 rm] show ?case by simp
qed

lemma set_children_inv:
  "inv s \<Longrightarrow> isDirectory (heap s node) \<Longrightarrow> \<forall>c \<in> set cs. c < nextAddr s \<Longrightarrow>
   inv (upd_node node (\<lambda>n. n\<lparr>children := Some cs\<rparr>) s)"
  unfolding inv_def valid_def files_childless_def upd_node_def isFile_def isDirectory_def
  by (auto split: if_splits)

lemma set_name_inv: "inv s \<Longrightarrow> inv (upd_node node (\<lambda>n. n\<lparr>name := x\<rparr>) s)"
  unfolding inv_def valid_def files_childless_def upd_node_def isFile_def isDirectory_def
  by (auto split: if_splits)

lemma removeChild_inv: "inv s \<Longrightarrow> inv (snd (removeChild this childId s))"
proof -
  assume i: "inv s"
  show ?thesis
  proof (cases "children (heap s this)")
    case None
    with i show ?thesis by (simp add: removeChild_def)
  next
    case (Some cs)
    show ?thesis
    proof (cases "findIndex (\<lambda>child. id' (heap s child) = childId) cs")
      case None
      with i Some show ?thesis by (simp add: removeChild_def)
    next
      case (Some index)
      have dir: "isDirectory (heap s this)"
        using i \<open>children (heap s this) = Some cs\<close> by (auto simp: inv_def files_childless_def isFile_def)
      have "children_or_empty (heap s this) = cs"
        using \<open>children (heap s this) = Some cs\<close> by (simp add: children_or_empty_def)
      then have "\<forall>c \<in> set cs. c < nextAddr s"
        using i unfolding inv_def valid_def by blast
      then have "\<forall>c \<in> set (take index cs @ drop (Suc index) cs). c < nextAddr s"
        by (auto dest: in_set_takeD in_set_dropD)
      from set_children_inv[OF i dir this] show ?thesis
        using Some \<open>children (heap s this) = Some cs\<close> by (simp add: removeChild_def)
    qed
  qed
qed

lemma replace_child_inv:
  "inv s \<Longrightarrow> u < nextAddr s \<Longrightarrow> inv (replace_child p e u s)"
proof -
  assume i: "inv s" and u: "u < nextAddr s"
  show ?thesis
  proof (cases "children (heap s p)")
    case None
    with i show ?thesis by (simp add: replace_child_def)
  next
    case (Some cs)
    show ?thesis
    proof (cases "findIndex (\<lambda>child. id' (heap s child) = e) cs")
      case None
      with i Some show ?thesis by (simp add: replace_child_def)
    next
      case (Some index)
      have dir: "isDirectory (heap s p)"
        using i \<open>children (heap s p) = Some cs\<close> by (auto simp: inv_def files_childless_def isFile_def)
      have "children_or_empty (heap s p) = cs"
        using \<open>children (heap s p) = Some cs\<close> by (simp add: children_or_empty_def)
      then have "\<forall>c \<in> set cs. c < nextAddr s"
        using i unfolding inv_def valid_def by blast
      then have "\<forall>c \<in> set (cs[index := u]). c < nextAddr s"
        using u by (auto dest!: subsetD[OF set_update_subset_insert])
      from set_children_inv[OF i dir this] show ?thesis
        using Some \<open>children (heap s p) = Some cs\<close> by (simp add: replace_child_def)
    qed
  qed
qed


lemma readdir_try_inv: "inv s \<Longrightarrow> readdir_try D path s = (x, s') \<Longrightarrow> inv s'"
proof -
  assume i: "inv s" and b: "readdir_try D path s = (x, s')"
  obtain r1 s1 where rp: "resolvePath D path s = (r1, s1)" by (cases "resolvePath D path s")
  note i1 = resolvePath_inv[OF i rp]
  show ?thesis
  proof (cases r1)
    case (Inl m)
    with b rp i1(1) show ?thesis by (auto simp: readdir_try_def)
  next
    case (Inr node)
    have n1: "node < nextAddr s1" using i1(3) Inr by simp
    show ?thesis
    proof (cases "isDirectory (heap s1 node)")
      case False
      with b rp i1(1) Inr show ?thesis by (auto simp: readdir_try_def)
    next
      case dir: True
      obtain r2 s2 where cl: "call_list D (children_query (id' (heap s1 node))) s1 = (r2, s2)"
        by (cases "call_list D (children_query (id' (heap s1 node))) s1")
      note ss = call_list_same[OF cl]
      have i2: "inv s2" using ss i1(1) by (rule same_store_inv)
      have n2: "node < nextAddr s2" using ss n1 by (rule same_store_lt)
      have d2: "isDirectory (heap s2 node)" using ss dir by (simp add: same_store_def)
      show ?thesis
      proof (cases r2)
        case (Inl m)
        with b rp Inr dir cl i2 show ?thesis by (auto simp: readdir_try_def)
      next
        case (Inr files)
        obtain cs s3 where rm: "readdir_map node files s2 = (cs, s3)"
          by (cases "readdir_map node files s2")
        from readdir_map_inv[OF i2 n2 rm]
        have i3: "inv s3" and e3: "extends s2 s3" and c3: "\<forall>c \<in> set cs. c < nextAddr s3"
          by simp_all
        have d3: "isDirectory (heap s3 node)"
          using extends_mimeType[OF e3 n2] d2 by simp
        have "s' = upd_node node (\<lambda>n. n\<lparr>children := Some cs\<rparr>) s3"
          using b rp \<open>r1 = Inr node\<close> dir cl Inr rm by (auto simp: readdir_try_def)
        with set_children_inv[OF i3 d3 c3] show ?thesis by simp
      qed
    qed
  qed
qed

lemma mkdir_try_inv: "inv s \<Longrightarrow> mkdir_try D path s = (x, s') \<Longrightarrow> inv s'"
proof -
  assume i: "inv s" and b: "mkdir_try D path s = (x, s')"
  obtain r1 s1 where rp: "resolvePath D (parent_path path) s = (r1, s1)"
    by (cases "resolvePath D (parent_path path) s")
  note i1 = resolvePath_inv[OF i rp]
  show ?thesis
  proof (cases r1)
    case (Inl m)
    with b rp i1(1) show ?thesis by (auto simp: mkdir_try_def)
  next
    case (Inr p)
    have n1: "p < nextAddr s1" using i1(3) Inr by simp
    let ?ps = "\<lparr>create_name = leaf_name path, create_mimeType = Some DriveMimeTypes_Folder,
                   create_parents = [id' (heap s1 p)], create_body = None\<rparr>"
    obtain r2 s2 where cc: "call_create D ?ps s1 = (r2, s2)" by (cases "call_create D ?ps s1")
    note ss = call_create_same[OF cc]
    have i2: "inv s2" using ss i1(1) by (rule same_store_inv)
    have n2: "p < nextAddr s2" using ss n1 by (rule same_store_lt)
    show ?thesis
    proof (cases r2)
      case (Inl m)
      with b rp Inr cc i2 show ?thesis by (auto simp: mkdir_try_def)
    next
      case (Inr data)
      obtain a s3 where al: "alloc (node_of_folder data) s2 = (a, s3)"
        by (cases "alloc (node_of_folder data) s2")
      from alloc_inv[OF i2 _ _ al] have i3: "inv s3" and a: "a < nextAddr s3" "nextAddr s2 < nextAddr s3"
        by simp_all
      have "inv (addChild p a s3)" using i3 n2 a by (intro addChild_inv) simp_all
      moreover have "s' = addChild p a s3"
        using b rp \<open>r1 = Inr p\<close> cc Inr al by (auto simp: mkdir_try_def)
      ultimately show ?thesis by simp
    qed
  qed
qed

lemma findFileInFolder_same: "findFileInFolder D fid fn s = (x, s') \<Longrightarrow> same_store s s'"
  by (auto simp: findFileInFolder_def split: prod.splits sum.splits dest: call_list_same)

lemma writeFile_try_inv: "inv s \<Longrightarrow> writeFile_try D path content s = (x, s') \<Longrightarrow> inv s'"
proof -
  assume i: "inv s" and b: "writeFile_try D path content s = (x, s')"
  obtain r1 s1 where rp: "resolvePath D (parent_path path) s = (r1, s1)"
    by (cases "resolvePath D (parent_path path) s")
  note i1 = resolvePath_inv[OF i rp]
  show ?thesis
  proof (cases r1)
    case (Inl m)
    with b rp i1(1) show ?thesis by (auto simp: writeFile_try_def)
  next
    case (Inr p)
    have n1: "p < nextAddr s1" using i1(3) Inr by simp
    obtain r2 s2 where ff: "findFileInFolder D (id' (heap s1 p)) (leaf_name path) s1 = (r2, s2)"
      by (cases "findFileInFolder D (id' (heap s1 p)) (leaf_name path) s1")
    note ss = findFileInFolder_same[OF ff]
    have i2: "inv s2" using ss i1(1) by (rule same_store_inv)
    have n2: "p < nextAddr s2" using ss n1 by (rule same_store_lt)
    show ?thesis
    proof (cases r2)
      case (Inl m)
      with b rp Inr ff i2 show ?thesis by (auto simp: writeFile_try_def)
    next
      case (Inr found)
      show ?thesis
      proof (cases found)
        case None
        let ?ps = "\<lparr>create_name = leaf_name path, create_mimeType = None,
                        create_parents = [id' (heap s2 p)], create_body = Some content\<rparr>"
        obtain r3 s3 where cc: "call_create D ?ps s2 = (r3, s3)" by (cases "call_create D ?ps s2")
        note ss3 = call_create_same[OF cc]
        have i3: "inv s3" using ss3 i2 by (rule same_store_inv)
        have n3: "p < nextAddr s3" using ss3 n2 by (rule same_store_lt)
        show ?thesis
        proof (cases r3)
          case (Inl m)
          with b rp \<open>r1 = Inr p\<close> ff Inr None cc i3 show ?thesis by (auto simp: writeFile_try_def)
        next
          case r3: (Inr data)
          obtain a s4 where al: "alloc (node_of_file data) s3 = (a, s4)"
            by (cases "alloc (node_of_file data) s3")
          from alloc_inv[OF i3 _ _ al] have i4: "inv s4" and a: "a < nextAddr s4" "nextAddr s3 < nextAddr s4"
            by simp_all
          have "inv (addChild p a s4)" using i4 n3 a by (intro addChild_inv) simp_all
          moreover have "s' = addChild p a s4"
            using b rp \<open>r1 = Inr p\<close> ff Inr None cc r3 al by (auto simp: writeFile_try_def)
          ultimately show ?thesis by simp
        qed
      next
        case (Some existing)
        let ?ps = "\<lparr>update_fileId = file_id existing, update_name = leaf_name path,
                        update_body = Some content, addParents = None, removeParents = None\<rparr>"
        obtain r3 s3 where cu: "call_update D ?ps s2 = (r3, s3)" by (cases "call_update D ?ps s2")
        note ss3 = call_update_same[OF cu]
        have i3: "inv s3" using ss3 i2 by (rule same_store_inv)
        show ?thesis
        proof (cases r3)
          case (Inl m)
          with b rp \<open>r1 = Inr p\<close> ff Inr Some cu i3 show ?thesis by (auto simp: writeFile_try_def)
        next
          case r3: (Inr data)
          obtain a s4 where al: "alloc (node_of_file data) s3 = (a, s4)"
            by (cases "alloc (node_of_file data) s3")
          from alloc_inv[OF i3 _ _ al] have i4: "inv s4" and a: "a < nextAddr s4"
            by simp_all
          have "inv (replace_child p (file_id existing) a s4)" using i4 a by (rule replace_child_inv)
          moreover have "s' = replace_child p (file_id existing) a s4"
            using b rp \<open>r1 = Inr p\<close> ff Inr Some cu r3 al by (auto simp: writeFile_try_def)
          ultimately show ?thesis by simp
        qed
      qed
    qed
  qed
qed

lemma readFile_try_inv: "inv s \<Longrightarrow> readFile_try D path s = (x, s') \<Longrightarrow> inv s'"
proof -
  assume i: "inv s" and b: "readFile_try D path s = (x, s')"
  obtain r1 s1 where rp: "resolvePath D path s = (r1, s1)" by (cases "resolvePath D path s")
  note i1 = resolvePath_inv[OF i rp]
  show ?thesis
  proof (cases r1)
    case (Inl m)
    with b rp i1(1) show ?thesis by (auto simp: readFile_try_def)
  next
    case (Inr node)
    show ?thesis
    proof (cases "isDirectory (heap s1 node)")
      case True
      with b rp i1(1) Inr show ?thesis by (auto simp: readFile_try_def)
    next
      case False
      then have "call_get_media D (id' (heap s1 node)) s1 = (x, s')"
        using b rp Inr by (simp add: readFile_try_def)
      from call_get_media_same[OF this] i1(1) show ?thesis by (rule same_store_inv)
    qed
  qed
qed

lemma unlink_try_inv: "inv s \<Longrightarrow> unlink_try D path s = (x, s') \<Longrightarrow> inv s'"
proof -
  assume i: "inv s" and b: "unlink_try D path s = (x, s')"
  obtain r1 s1 where rp: "resolvePath D path s = (r1, s1)" by (cases "resolvePath D path s")
  note i1 = resolvePath_inv[OF i rp]
  show ?thesis
  proof (cases r1)
    case (Inl m)
    with b rp i1(1) show ?thesis by (auto simp: unlink_try_def)
  next
    case (Inr node)
    obtain r2 s2 where cd: "call_delete D (id' (heap s1 node)) s1 = (r2, s2)"
      by (cases "call_delete D (id' (heap s1 node)) s1")
    have i2: "inv s2" using call_delete_same[OF cd] i1(1) by (rule same_store_inv)
    show ?thesis
    proof (cases r2)
      case (Inl m)
      with b rp Inr cd i2 show ?thesis by (auto simp: unlink_try_def)
    next
      case r2: (Inr u)
      show ?thesis
      proof (cases "parent (heap s2 node)")
        case None
        with b rp Inr cd r2 i2 show ?thesis by (auto simp: unlink_try_def)
      next
        case (Some p)
        then have "s' = snd (removeChild p (id' (heap s2 node)) s2)"
          using b rp Inr cd r2 by (auto simp: unlink_try_def)
        with removeChild_inv[OF i2] show ?thesis by simp
      qed
    qed
  qed
qed

lemma rename_local_inv:
  "inv s \<Longrightarrow> node < nextAddr s \<Longrightarrow> np < nextAddr s \<Longrightarrow> inv (rename_local node newName np s)"
proof -
  assume i: "inv s" and n: "node < nextAddr s" and p: "np < nextAddr s"
  let ?s1 = "upd_node node (\<lambda>n. n\<lparr>name := newName\<rparr>) s"
  let ?s2 = "case parent (heap ?s1 node) of None \<Rightarrow> ?s1
             | Some p \<Rightarrow> snd (removeChild p (id' (heap ?s1 node)) ?s1)"
  have i1: "inv ?s1" using i by (rule set_name_inv)
  have n1: "nextAddr ?s1 = nextAddr s" by (simp add: upd_node_def)
  have i2: "inv ?s2" using i1 removeChild_inv[OF i1] by (simp split: option.splits)
  have n2: "nextAddr ?s2 = nextAddr s"
    using n1 by (auto simp: removeChild_def upd_node_def split: option.splits)
  have "inv (addChild np node ?s2)" using i2 n p n2 by (intro addChild_inv) simp_all
  then show ?thesis by (simp add: rename_local_def Let_def)
qed


lemma rename_try_inv: "inv s \<Longrightarrow> rename_try D oldPath newPath s = (x, s') \<Longrightarrow> inv s'"
proof -
  assume i: "inv s" and b: "rename_try D oldPath newPath s = (x, s')"
  obtain r1 s1 where rp: "resolvePath D oldPath s = (r1, s1)" by (cases "resolvePath D oldPath s")
  note i1 = resolvePath_inv[OF i rp]
  show ?thesis
  proof (cases r1)
    case (Inl m)
    with b rp i1(1) show ?thesis by (auto simp: rename_try_def)
  next
    case (Inr node)
    have n1: "node < nextAddr s1" using i1(3) Inr by simp
    obtain r2 s2 where rp2: "resolvePath D (parent_path newPath) s1 = (r2, s2)"
      by (cases "resolvePath D (parent_path newPath) s1")
    note i2 = resolvePath_inv[OF i1(1) rp2]
    have n2: "node < nextAddr s2" using i2(2) n1 by (rule extends_lt)
    show ?thesis
    proof (cases r2)
      case (Inl m)
      with b rp Inr rp2 i2(1) show ?thesis by (auto simp: rename_try_def)
    next
      case r2: (Inr np)
      have p2: "np < nextAddr s2" using i2(3) r2 by simp
      let ?ps = "\<lparr>update_fileId = id' (heap s2 node), update_name = leaf_name newPath,
                        update_body = None, addParents = Some (id' (heap s2 np)),
                        removeParents =
                          (case parent (heap s2 node) of
                             None \<Rightarrow> None
                           | Some p \<Rightarrow> Some (id' (heap s2 p)))\<rparr>"
      obtain r3 s3 where cu: "call_update D ?ps s2 = (r3, s3)" by (cases "call_update D ?ps s2")
      note ss = call_update_same[OF cu]
      have i3: "inv s3" using ss i2(1) by (rule same_store_inv)
      have n3: "node < nextAddr s3" "np < nextAddr s3"
        using ss n2 p2 by (auto intro: same_store_lt)
      show ?thesis
      proof (cases r3)
        case (Inl m)
        with b rp Inr rp2 r2 cu i3 show ?thesis by (auto simp: rename_try_def)
      next
        case r3: (Inr u)
        have "s' = rename_local node (leaf_name newPath) np s3"
          using b rp Inr rp2 r2 cu r3 by (auto simp: rename_try_def)
        with rename_local_inv[OF i3 n3] show ?thesis by simp
      qed
    qed
  qed
qed

lemma stat_try_inv: "inv s \<Longrightarrow> stat_try D path s = (x, s') \<Longrightarrow> inv s'"
proof -
  assume i: "inv s" and b: "stat_try D path s = (x, s')"
  obtain r1 s1 where rp: "resolvePath D path s = (r1, s1)" by (cases "resolvePath D path s")
  note i1 = resolvePath_inv[OF i rp]
  have "s' = s1" using b rp by (auto simp: stat_try_def split: sum.splits option.splits)
  with i1(1) show ?thesis by simp
qed

lemma search_try_inv: "inv s \<Longrightarrow> search_try D opts path s = (x, s') \<Longrightarrow> inv s'"
proof -
  assume i: "inv s" and b: "search_try D opts path s = (x, s')"
  obtain r1 s1 where rp: "resolvePath D path s = (r1, s1)" by (cases "resolvePath D path s")
  note i1 = resolvePath_inv[OF i rp]
  show ?thesis
  proof (cases r1)
    case (Inl m)
    with b rp i1(1) show ?thesis by (auto simp: search_try_def)
  next
    case (Inr p)
    obtain r2 s2 where cl: "call_list D (search_query (id' (heap s1 p)) opts) s1 = (r2, s2)"
      by (cases "call_list D (search_query (id' (heap s1 p)) opts) s1")
    have i2: "inv s2" using call_list_same[OF cl] i1(1) by (rule same_store_inv)
    show ?thesis
    proof (cases r2)
      case (Inl m)
      with b rp Inr cl i2 show ?thesis by (auto simp: search_try_def)
    next
      case r2: (Inr files)
      obtain ns s3 where sm: "search_map files s2 = (ns, s3)" by (cases "search_map files s2")
      have "s' = s3" using b rp Inr cl r2 sm by (auto simp: search_try_def)
      with search_map_inv[OF i2 sm] show ?thesis by simp
    qed
  qed
qed

lemma copy_try_inv: "inv s \<Longrightarrow> copy_try D src dst s = (x, s') \<Longrightarrow> inv s'"
proof -
  assume i: "inv s" and b: "copy_try D src dst s = (x, s')"
  obtain r1 s1 where rp: "resolvePath D src s = (r1, s1)" by (cases "resolvePath D src s")
  note i1 = resolvePath_inv[OF i rp]
  show ?thesis
  proof (cases r1)
    case (Inl m)
    with b rp i1(1) show ?thesis by (auto simp: copy_try_def)
  next
    case (Inr node)
    obtain r2 s2 where rp2: "resolvePath D (parent_path dst) s1 = (r2, s2)"
      by (cases "resolvePath D (parent_path dst) s1")
    note i2 = resolvePath_inv[OF i1(1) rp2]
    show ?thesis
    proof (cases r2)
      case (Inl m)
      with b rp Inr rp2 i2(1) show ?thesis by (auto simp: copy_try_def)
    next
      case r2: (Inr np)
      have p2: "np < nextAddr s2" using i2(3) r2 by simp
      let ?ps = "\<lparr>copy_fileId = id' (heap s2 node), copy_name = leaf_name dst,
                        copy_parents = [id' (heap s2 np)]\<rparr>"
      obtain r3 s3 where cc: "call_copy D ?ps s2 = (r3, s3)" by (cases "call_copy D ?ps s2")
      note ss = call_copy_same[OF cc]
      have i3: "inv s3" using ss i2(1) by (rule same_store_inv)
      have p3: "np < nextAddr s3" using ss p2 by (rule same_store_lt)
      show ?thesis
      proof (cases r3)
        case (Inl m)
        with b rp Inr rp2 r2 cc i3 show ?thesis by (auto simp: copy_try_def)
      next
        case r3: (Inr data)
        obtain a s4 where al: "alloc (node_of_file data) s3 = (a, s4)"
          by (cases "alloc (node_of_file data) s3")
        from alloc_inv[OF i3 _ _ al] have i4: "inv s4" and a: "a < nextAddr s4" "nextAddr s3 < nextAddr s4"
          by simp_all
        have "inv (addChild np a s4)" using i4 p3 a by (intro addChild_inv) simp_all
        moreover have "s' = addChild np a s4"
          using b rp Inr rp2 r2 cc r3 al by (auto simp: copy_try_def)
        ultimately show ?thesis by simp
      qed
    qed
  qed
qed

lemma reachable_inv: "reachable D s \<Longrightarrow> inv s"
proof (induction rule: reachable.induct)
  case (r_new opts r)
  show ?case by (rule new_GDrive_inv)
next
  case (r_remote s r)
  then show ?case by (simp add: set_drive_inv)
next
  case (r_connect s now)
  then show ?case using connect_inv[of s D now "fst (connect D now s)" "snd (connect D now s)"] by simp
next
  case (r_readdir s now path)
  then show ?case unfolding readdir_def by (intro operation_inv) (auto dest: readdir_try_inv)
next
  case (r_mkdir s now path)
  then show ?case unfolding mkdir_def by (intro operation_inv) (auto dest: mkdir_try_inv)
next
  case (r_writeFile s now path content)
  then show ?case unfolding writeFile_def by (intro operation_inv) (auto dest: writeFile_try_inv)
next
  case (r_readFile s now path)
  then show ?case unfolding readFile_def by (intro operation_inv) (auto dest: readFile_try_inv)
next
  case (r_unlink s now path)
  then show ?case unfolding unlink_def by (intro operation_inv) (auto dest: unlink_try_inv)
next
  case (r_rename s now oldPath newPath)
  then show ?case unfolding rename_def by (intro operation_inv) (auto dest: rename_try_inv)
next
  case (r_stat s now path)
  then show ?case unfolding stat_def by (intro operation_inv) (auto dest: stat_try_inv)
next
  case (r_search s now sopts path)
  then show ?case unfolding search_def by (intro operation_inv) (auto dest: search_try_inv)
next
  case (r_copy s now sourcePath destinationPath)
  then show ?case unfolding copy_def by (intro operation_inv) (auto dest: copy_try_inv)
qed

text \<open>
  C9. In every reachable state a node that is not a folder has no \<^verbatim>\<open>children\<close> array.
\<close>

theorem file_never_has_children:
  "reachable D s \<Longrightarrow> isFile (heap s a) \<Longrightarrow> children (heap s a) = None"
  using reachable_inv[of D s] by (simp add: inv_def files_childless_def)

lemmas op_defs = operation_def rethrow_def readdir_def readdir_try_def mkdir_def mkdir_try_def
  writeFile_def writeFile_try_def findFileInFolder_def replace_child_def readFile_def
  readFile_try_def unlink_def unlink_try_def rename_def rename_try_def rename_local_def
  stat_def stat_try_def search_def search_try_def copy_def copy_try_def parent_path_def
  leaf_name_def

theorem file_never_has_children_witness:
  "isFile (heap (snd (mkdir demo_api 1 ''/file.txt/sub'' (snd (readdir demo_api 1 ''/'' demo_connected)))) 2)
   \<and> children (heap (snd (mkdir demo_api 1 ''/file.txt/sub'' (snd (readdir demo_api 1 ''/'' demo_connected)))) 2) = None
   \<and> fst (mkdir demo_api 1 ''/file.txt/sub'' (snd (readdir demo_api 1 ''/'' demo_connected))) = Inr 3"
proof -
  let ?s1 = "snd (readdir demo_api 1 ''/'' demo_connected)"
  let ?s2 = "snd (mkdir demo_api 1 ''/file.txt/sub'' ?s1)"
  have r: "reachable demo_api ?s2"
    unfolding demo_connected_def by (intro reachable.intros)
  have s1: "heap ?s1 2 = node_of_file (demo_entry ''F'' ''file.txt'' ''text/plain'' (Some 5))\<lparr>parent := Some 0\<rparr>"
    by (simp add: demo_defs model_defs op_defs)
  have f: "isFile (heap ?s2 2)"
    by (simp add: demo_defs model_defs op_defs)
  have m: "fst (mkdir demo_api 1 ''/file.txt/sub'' ?s1) = Inr 3"
    by (simp add: demo_defs model_defs op_defs)
  from file_never_has_children[OF r f] f m show ?thesis by simp
qed

subsection \<open>Resolving twice\<close>

lemma cached_walk_resolve:
  "cached_walk (heap s) cur parts = Some n \<Longrightarrow> resolve_loop D path parts cur s = (Inr n, s)"
  by (induction parts arbitrary: cur) (auto split: if_splits option.splits)







subsection \<open>The example store honours the exact-name filter\<close>


lemma quotes_simps [simp]:
  "quotes [] = 0" "quotes (x @ y) = quotes x + quotes y"
  "quotes (c # x) = (if c = CHR 0x27 then 1 else 0) + quotes x"
  by (simp_all add: quotes_def)






subsection \<open>Sizes\<close>

lemma foldl_size_None:
  "foldl (\<lambda>total child. case total of None \<Rightarrow> None
            | Some t \<Rightarrow> (case g child of None \<Rightarrow> None | Some v \<Rightarrow> Some (js_add t v))) None cs = None"
  by (induction cs) simp_all

lemma foldl_size_Some:
  "\<forall>c \<in> set cs. g c = Some (f c) \<Longrightarrow>
   foldl (\<lambda>total child. case total of None \<Rightarrow> None
            | Some t \<Rightarrow> (case g child of None \<Rightarrow> None | Some v \<Rightarrow> Some (js_add t v))) (Some acc) cs
     = Some (foldl js_add acc (map f cs))"
  by (induction cs arbitrary: acc) simp_all

lemma foldl_size_returns:
  "foldl (\<lambda>total child. case total of None \<Rightarrow> None
            | Some t \<Rightarrow> (case g child of None \<Rightarrow> None | Some v \<Rightarrow> Some (js_add t v))) (Some acc) cs
     = Some w \<Longrightarrow> \<forall>c \<in> set cs. g c \<noteq> None"
proof (induction cs arbitrary: acc)
  case Nil
  then show ?case by simp
next
  case (Cons c cs)
  show ?case
  proof (cases "g c")
    case None
    with Cons.prems show ?thesis by (simp add: foldl_size_None)
  next
    case (Some v)
    with Cons.prems Cons.IH[of "js_add acc v"] show ?thesis by simp
  qed
qed

text \<open>Below \<open>2\<^sup>5\<^sup>3\<close> the additions of non-negative sizes are exact.\<close>

lemma foldl_js_add_exact:
  "\<forall>v \<in> set vs. 0 \<le> v \<Longrightarrow> 0 \<le> acc \<Longrightarrow> acc + sum_list vs \<le> 2 ^ 53 \<Longrightarrow>
   foldl js_add (Number acc) (map Number vs) = Number (acc + sum_list vs)"
proof (induction vs arbitrary: acc)
  case Nil
  then show ?case by simp
next
  case (Cons v vs)
  have nn: "0 \<le> sum_list vs" using Cons.prems(1) by (simp add: sum_list_nonneg)
  have v: "0 \<le> v" using Cons.prems(1) by simp
  have small: "\<bar>acc + v\<bar> \<le> 2 ^ 53" using Cons.prems(2,3) nn v by simp
  have "foldl js_add (Number (acc + v)) (map Number vs) = Number (acc + v + sum_list vs)"
    using Cons.prems v by (intro Cons.IH) (simp_all add: add.assoc)
  then show ?case using small by (simp add: add.assoc)
qed

text \<open>Beyond, they round: \<open>2\<^sup>5\<^sup>3 + 1\<close> is \<open>2\<^sup>5\<^sup>3\<close>.\<close>

lemma bit_length_numeral:
  "bit_length (numeral n) = Suc (bit_length (numeral n div 2))" "bit_length 0 = 0"
  "bit_length (Suc 0) = 1"
  by (subst bit_length.simps, simp)+

lemma js_add_rounds: "js_add (Number (2 ^ 53)) (Number 1) = Number (2 ^ 53)"
  by (simp add: to_double_def Let_def bit_length_numeral)

lemma getSize_Suc: "getSize k h a = Some v \<Longrightarrow> getSize (Suc k) h a = Some v"
proof (induction k arbitrary: a v)
  case 0
  then show ?case by simp
next
  case (Suc k)
  show ?case
  proof (cases "isFile (h a)")
    case True
    with Suc.prems show ?thesis by simp
  next
    case False
    let ?cs = "children_or_empty (h a)"
    from Suc.prems False have ret: "\<forall>c \<in> set ?cs. getSize k h c \<noteq> None"
      using foldl_size_returns[of "getSize k h" "Number 0" ?cs v] by simp
    then have k: "\<forall>c \<in> set ?cs. getSize k h c = Some (the (getSize k h c))" by auto
    then have k': "\<forall>c \<in> set ?cs. getSize (Suc k) h c = Some (the (getSize k h c))"
      using Suc.IH by blast
    have "getSize (Suc k) h a = Some (foldl js_add (Number 0) (map (\<lambda>c. the (getSize k h c)) ?cs))"
      using False foldl_size_Some[OF k, of "Number 0"] by simp
    moreover have "getSize (Suc (Suc k)) h a = Some (foldl js_add (Number 0) (map (\<lambda>c. the (getSize k h c)) ?cs))"
      using False foldl_size_Some[OF k', of "Number 0"] by simp
    ultimately show ?thesis using Suc.prems by simp
  qed
qed

lemma getSize_more_fuel: "getSize k h a = Some v \<Longrightarrow> getSize (k + j) h a = Some v"
  by (induction j) (auto dest: getSize_Suc simp del: getSize.simps)

text \<open>
  C5. \<^verbatim>\<open>getSize()\<close> of a file is its stored size. Of a folder whose cached children all
  return, it is the sum of what they return, added from \<open>0\<close> in the order of the children
  with the \<^verbatim>\<open>+\<close> of the language; that is their sum as integers when they are non-negative
  and the sum is at most \<open>2\<^sup>5\<^sup>3\<close>. It is \<open>0\<close> when \<^verbatim>\<open>children\<close> is absent or empty. \<^verbatim>\<open>stat\<close>
  reports the \<^verbatim>\<open>getSize()\<close> of the node the path resolves to, computed on the cache after
  resolution.
\<close>

theorem getSize_spec:
  "(isFile (h a) \<longrightarrow> getSize (Suc k) h a = Some (size' (h a))) \<and>
   (isDirectory (h a) \<and> (\<forall>c \<in> set (children_or_empty (h a)). getSize k h c = Some (f c))
      \<longrightarrow> getSize (Suc k) h a = Some (foldl js_add (Number 0) (map f (children_or_empty (h a))))) \<and>
   (isDirectory (h a) \<and>
    (\<forall>c \<in> set (children_or_empty (h a)). getSize k h c = Some (Number (g c)) \<and> 0 \<le> g c) \<and>
    sum_list (map g (children_or_empty (h a))) \<le> 2 ^ 53
      \<longrightarrow> getSize (Suc k) h a = Some (Number (sum_list (map g (children_or_empty (h a)))))) \<and>
   (isDirectory (h a) \<and> (children (h a) = None \<or> children (h a) = Some [])
      \<longrightarrow> getSize (Suc k) h a = Some (Number 0)) \<and>
   (stat_try D path s = (Inr st, s1)
      \<longrightarrow> (\<exists>node. resolvePath D path s = (Inr node, s1) \<and>
                   getSize (Suc (nextAddr s1)) (heap s1) node = Some (st_size st)))"
proof (intro conjI impI)
  assume "isFile (h a)"
  then show "getSize (Suc k) h a = Some (size' (h a))" by simp
next
  assume a: "isDirectory (h a) \<and> (\<forall>c \<in> set (children_or_empty (h a)). getSize k h c = Some (f c))"
  then have "\<not> isFile (h a)" by (simp add: isFile_def)
  then show "getSize (Suc k) h a = Some (foldl js_add (Number 0) (map f (children_or_empty (h a))))"
    using a foldl_size_Some[of "children_or_empty (h a)" "getSize k h" f "Number 0"] by simp
next
  let ?cs = "children_or_empty (h a)"
  assume a: "isDirectory (h a) \<and>
    (\<forall>c \<in> set ?cs. getSize k h c = Some (Number (g c)) \<and> 0 \<le> g c) \<and>
    sum_list (map g ?cs) \<le> 2 ^ 53"
  then have nf: "\<not> isFile (h a)" by (simp add: isFile_def)
  have kids: "\<forall>c \<in> set ?cs. getSize k h c = Some (Number (g c))" using a by simp
  have nn: "\<forall>v \<in> set (map g ?cs). 0 \<le> v" using a by simp
  have le: "0 + sum_list (map g ?cs) \<le> 2 ^ 53" using a by simp
  have "foldl js_add (Number 0) (map Number (map g ?cs)) = Number (0 + sum_list (map g ?cs))"
    using nn _ le by (rule foldl_js_add_exact) simp
  then have ex: "foldl js_add (Number 0) (map (\<lambda>c. Number (g c)) ?cs) = Number (sum_list (map g ?cs))"
    by (simp add: comp_def)
  have "getSize (Suc k) h a = Some (foldl js_add (Number 0) (map (\<lambda>c. Number (g c)) ?cs))"
    using nf foldl_size_Some[OF kids, of "Number 0"] by simp
  then show "getSize (Suc k) h a = Some (Number (sum_list (map g ?cs)))"
    unfolding ex .
next
  assume a: "isDirectory (h a) \<and> (children (h a) = None \<or> children (h a) = Some [])"
  then have "\<not> isFile (h a)" "children_or_empty (h a) = []"
    by (auto simp: isFile_def children_or_empty_def)
  then show "getSize (Suc k) h a = Some (Number 0)" by simp
next
  assume "stat_try D path s = (Inr st, s1)"
  then show "\<exists>node. resolvePath D path s = (Inr node, s1) \<and>
                   getSize (Suc (nextAddr s1)) (heap s1) node = Some (st_size st)"
    by (auto simp: stat_try_def split: prod.splits sum.splits option.splits)
qed


theorem getSize_spec_witness:
  "fst (stat demo_api 1 ''/a'' demo_connected) =
     Inr \<lparr>st_isDirectory = True, st_isFile = False, st_size = Number 0,
          st_mtime = Some (Date 0), st_ctime = Some (Date 0)\<rparr> \<and>
   fst (stat demo_api 1 ''/a'' (snd (readdir demo_api 1 ''/a'' demo_connected))) =
     Inr \<lparr>st_isDirectory = True, st_isFile = False, st_size = Number 30,
          st_mtime = Some (Date 0), st_ctime = Some (Date 0)\<rparr> \<and>
   getSize (Suc 0) (heap (snd (readdir demo_api 1 ''/a'' demo_connected))) 2 = Some (Number 10) \<and>
   getSize (Suc (Suc 0)) (heap (snd (readdir demo_api 1 ''/a'' demo_connected))) 1 =
     Some (foldl js_add (Number 0) [Number 10, Number 20]) \<and>
   getSize (Suc (Suc 0)) (heap (snd (readdir demo_api 1 ''/a'' demo_connected))) 1 = Some (Number (10 + 20)) \<and>
   getSize (Suc 0) (heap (snd (stat demo_api 1 ''/a'' demo_connected))) 1 = Some (Number 0) \<and>
   (\<exists>node. resolvePath demo_api ''/a'' (snd (readdir demo_api 1 ''/a'' demo_connected)) =
             (Inr node, snd (stat_try demo_api ''/a'' (snd (readdir demo_api 1 ''/a'' demo_connected)))) \<and>
           getSize (Suc (nextAddr (snd (stat_try demo_api ''/a'' (snd (readdir demo_api 1 ''/a'' demo_connected))))))
             (heap (snd (stat_try demo_api ''/a'' (snd (readdir demo_api 1 ''/a'' demo_connected))))) node
           = Some (Number 30))"
proof -
  let ?s1 = "snd (stat demo_api 1 ''/a'' demo_connected)"
  let ?s2 = "snd (readdir demo_api 1 ''/a'' demo_connected)"
  let ?h = "heap ?s2"
  have h2: "?h 1 = (node_of_file_dflt (demo_entry ''A'' ''a'' DriveMimeTypes_Folder None))
                      \<lparr>children := Some [2, 3], parent := Some 0\<rparr>"
      "?h 2 = (node_of_file (demo_entry ''X'' ''x'' ''text/plain'' (Some 10)))\<lparr>parent := Some 1\<rparr>"
      "?h 3 = (node_of_file (demo_entry ''Y'' ''y'' ''text/plain'' (Some 20)))\<lparr>parent := Some 1\<rparr>"
    by (simp_all add: demo_defs model_defs op_defs)
  have files: "isFile (?h 2)" "isFile (?h 3)" "size' (?h 2) = Number 10" "size' (?h 3) = Number 20"
    and dir: "isDirectory (?h 1)" "children_or_empty (?h 1) = [2, 3]"
    unfolding h2 by (simp_all add: demo_defs model_defs)
  have x: "getSize (Suc 0) ?h 2 = Some (Number 10)"
    using getSize_spec[where h = ?h and a = 2 and k = 0, THEN conjunct1] files
    by (simp del: getSize.simps)
  have y: "getSize (Suc 0) ?h 3 = Some (Number 20)"
    using getSize_spec[where h = ?h and a = 3 and k = 0, THEN conjunct1] files
    by (simp del: getSize.simps)
  have kids: "isDirectory (?h 1) \<and>
      (\<forall>c \<in> set (children_or_empty (?h 1)). getSize (Suc 0) ?h c = Some (size' (?h c)))"
    using dir x y files by (simp del: getSize.simps)
  have a: "getSize (Suc (Suc 0)) ?h 1 = Some (foldl js_add (Number 0) [Number 10, Number 20])"
    using getSize_spec[where h = ?h and a = 1 and k = "Suc 0" and f = "\<lambda>c. size' (?h c)",
        THEN conjunct2, THEN conjunct1, rule_format, OF kids] dir files
    by (simp del: getSize.simps js_add.simps foldl.simps)
  have kids': "isDirectory (?h 1) \<and>
      (\<forall>c \<in> set (children_or_empty (?h 1)).
         getSize (Suc 0) ?h c = Some (Number (if c = 2 then 10 else 20)) \<and>
         0 \<le> (if c = 2 then 10 else (20::int))) \<and>
      sum_list (map (\<lambda>c. if c = 2 then 10 else (20::int)) (children_or_empty (?h 1))) \<le> 2 ^ 53"
    using dir x y by (simp del: getSize.simps)
  have b: "getSize (Suc (Suc 0)) ?h 1 = Some (Number (10 + 20))"
    using getSize_spec[where h = ?h and a = 1 and k = "Suc 0" and g = "\<lambda>c. if c = 2 then 10 else 20",
        THEN conjunct2, THEN conjunct2, THEN conjunct1, rule_format, OF kids'] dir
    by (simp del: getSize.simps)
  have h1: "isDirectory (heap ?s1 1)" "children (heap ?s1 1) = None"
    by (simp_all add: demo_defs model_defs op_defs)
  have u: "getSize (Suc 0) (heap ?s1) 1 = Some (Number 0)"
    using getSize_spec[where h = "heap ?s1" and a = 1 and k = 0, THEN conjunct2, THEN conjunct2,
        THEN conjunct2, THEN conjunct1] h1
    by (simp del: getSize.simps)
  have st1: "fst (stat demo_api 1 ''/a'' demo_connected) =
     Inr \<lparr>st_isDirectory = True, st_isFile = False, st_size = Number 0,
          st_mtime = Some (Date 0), st_ctime = Some (Date 0)\<rparr>"
    by (simp add: demo_defs model_defs op_defs)
  have st2: "fst (stat demo_api 1 ''/a'' ?s2) =
     Inr \<lparr>st_isDirectory = True, st_isFile = False, st_size = Number 30,
          st_mtime = Some (Date 0), st_ctime = Some (Date 0)\<rparr>"
    by (simp add: demo_defs model_defs op_defs)
  have "fst (stat_try demo_api ''/a'' ?s2) =
     Inr \<lparr>st_isDirectory = True, st_isFile = False, st_size = Number 30,
          st_mtime = Some (Date 0), st_ctime = Some (Date 0)\<rparr>"
    by (simp add: demo_defs model_defs op_defs)
  then have "stat_try demo_api ''/a'' ?s2 =
     (Inr \<lparr>st_isDirectory = True, st_isFile = False, st_size = Number 30,
          st_mtime = Some (Date 0), st_ctime = Some (Date 0)\<rparr>, snd (stat_try demo_api ''/a'' ?s2))"
    by (simp add: prod_eq_iff)
  from getSize_spec[THEN conjunct2, THEN conjunct2, THEN conjunct2, THEN conjunct2, rule_format, OF this]
  have st3: "\<exists>node. resolvePath demo_api ''/a'' ?s2 = (Inr node, snd (stat_try demo_api ''/a'' ?s2)) \<and>
      getSize (Suc (nextAddr (snd (stat_try demo_api ''/a'' ?s2)))) (heap (snd (stat_try demo_api ''/a'' ?s2))) node
        = Some (Number 30)"
    by (simp del: getSize.simps)
  from st1 st2 x a b u st3 show ?thesis by (simp del: getSize.simps js_add.simps foldl.simps)
qed

subsection \<open>Paths of nodes\<close>

lemma join_str_snoc:
  "join_str sep (xs @ [y]) = concat (map (\<lambda>x. x @ sep) xs) @ y"
  by (induction sep xs rule: join_str.induct) simp_all

lemma getPath_loop_chain:
  "parent_chain h cur ps \<Longrightarrow>
   getPath_loop h acc cur = Some (concat (map (\<lambda>x. name (h x) @ ''/'') (rev ps)) @ acc)"
proof (induction ps arbitrary: cur acc)
  case Nil
  then show ?case by (cases cur) (simp_all add: getPath_loop.simps)
next
  case (Cons x xs)
  then obtain p where cur: "cur = Some p" "x = p" and ch: "parent_chain h (parent (h p)) xs"
    by (cases cur) auto
  have "getPath_loop h acc cur = getPath_loop h (name (h p) @ ''/'' @ acc) (parent (h p))"
    using cur by (subst getPath_loop.simps) simp
  also have "\<dots> = Some (concat (map (\<lambda>x. name (h x) @ ''/'') (rev xs)) @ name (h p) @ ''/'' @ acc)"
    using Cons.IH[OF ch] by simp
  finally show ?case using cur by simp
qed

lemma getPath_chain:
  assumes "parent_chain h (parent (h a)) ps"
  shows "getPath h a = Some (''/'' @ join_str ''/'' (map (\<lambda>x. name (h x)) (rev (a # ps))))"
proof -
  have "join_str ''/'' (map (\<lambda>x. name (h x)) (rev ps) @ [name (h a)]) =
        concat (map (\<lambda>x. name (h x) @ ''/'') (rev ps)) @ name (h a)"
    by (simp add: join_str_snoc comp_def)
  then show ?thesis
    using getPath_loop_chain[OF assms, of "name (h a)"] by (simp add: getPath_def)
qed

text \<open>
  C10. \<^verbatim>\<open>getPath()\<close> and resolution do not round-trip. Of a node without parent (the root)
  \<^verbatim>\<open>getPath()\<close> is \<^verbatim>\<open>/\<close> followed by that node's own name; of a node whose chain of parents is
  \<open>ps\<close> it is \<^verbatim>\<open>/\<close> followed by the names from the last of \<open>ps\<close> (the root) down to the node,
  joined by \<^verbatim>\<open>/\<close>. Resolution looks the first segment up among the root's children. In the
  example, the node \<^verbatim>\<open>/a/x\<close> resolves to has the path \<^verbatim>\<open>/My Drive/a/x\<close>, which does not resolve.
\<close>

theorem getPath_not_inverse:
  "(parent (h a) = None \<longrightarrow> getPath h a = Some (''/'' @ name (h a))) \<and>
   (parent_chain h (parent (h a)) ps \<longrightarrow>
      getPath h a = Some (''/'' @ join_str ''/'' (map (\<lambda>x. name (h x)) (rev (a # ps))))) \<and>
   (rootNode s = Some r \<and> path_parts path = seg # rest \<and> isDirectory (heap s r) \<and>
    find_child (heap s) r seg = Some c
      \<longrightarrow> resolvePath D path s = resolve_loop D path rest c s) \<and>
   (rootNode s = Some r \<and> path_parts path = seg # rest \<and> isDirectory (heap s r) \<and>
    find_child (heap s) r seg = None \<and>
    call_list D (name_query (id' (heap s r)) seg) s = (Inr [], s1)
      \<longrightarrow> resolvePath D path s = (Inl (''Path not found: '' @ path), s1)) \<and>
   (\<exists>s n p. fst (resolvePath demo_api ''/a/x'' demo_connected) = Inr n \<and>
            s = snd (resolvePath demo_api ''/a/x'' demo_connected) \<and>
            getPath (heap s) n = Some p \<and> fst (resolvePath demo_api p s) \<noteq> Inr n)"
proof (intro conjI impI)
  assume "parent (h a) = None"
  then have "parent_chain h (parent (h a)) []" by simp
  from getPath_chain[OF this] show "getPath h a = Some (''/'' @ name (h a))" by simp
next
  assume "parent_chain h (parent (h a)) ps"
  then show "getPath h a = Some (''/'' @ join_str ''/'' (map (\<lambda>x. name (h x)) (rev (a # ps))))"
    by (rule getPath_chain)
next
  assume "rootNode s = Some r \<and> path_parts path = seg # rest \<and> isDirectory (heap s r) \<and>
    find_child (heap s) r seg = Some c"
  then show "resolvePath D path s = resolve_loop D path rest c s"
    by (simp add: resolvePath_loop)
next
  assume "rootNode s = Some r \<and> path_parts path = seg # rest \<and> isDirectory (heap s r) \<and>
    find_child (heap s) r seg = None \<and>
    call_list D (name_query (id' (heap s r)) seg) s = (Inr [], s1)"
  then show "resolvePath D path s = (Inl (''Path not found: '' @ path), s1)"
    by (simp add: resolvePath_loop)
next
  let ?s = "snd (resolvePath demo_api ''/a/x'' demo_connected)"
  have n: "fst (resolvePath demo_api ''/a/x'' demo_connected) = Inr 2"
    by (simp add: demo_defs model_defs)
  have ch: "parent_chain (heap ?s) (parent (heap ?s 2)) [1, 0]"
    by (simp add: demo_defs model_defs)
  have nm: "map (\<lambda>x. name (heap ?s x)) [0, 1, 2] = [''My Drive'', ''a'', ''x'']"
    by (simp add: demo_defs model_defs)
  have p: "getPath (heap ?s) 2 = Some ''/My Drive/a/x''"
    using getPath_chain[OF ch] nm by simp
  have "fst (resolvePath demo_api ''/My Drive/a/x'' ?s) = Inl ''Path not found: /My Drive/a/x''"
    by (simp add: demo_defs model_defs)
  then have "fst (resolvePath demo_api ''/My Drive/a/x'' ?s) \<noteq> Inr 2" by simp
  with n p show "\<exists>s n p. fst (resolvePath demo_api ''/a/x'' demo_connected) = Inr n \<and>
            s = snd (resolvePath demo_api ''/a/x'' demo_connected) \<and>
            getPath (heap s) n = Some p \<and> fst (resolvePath demo_api p s) \<noteq> Inr n"
    by blast
qed

theorem getPath_not_inverse_witness:
  "getPath (heap demo_connected) 0 = Some ''/My Drive'' \<and>
   fst (resolvePath demo_api ''/My Drive'' demo_connected) = Inl ''Path not found: /My Drive'' \<and>
   getPath (heap (snd (resolvePath demo_api ''/a'' demo_connected))) 1 = Some ''/My Drive/a'' \<and>
   resolvePath demo_api ''/a/x'' (snd (resolvePath demo_api ''/a'' demo_connected)) =
     resolve_loop demo_api ''/a/x'' [''x''] 1 (snd (resolvePath demo_api ''/a'' demo_connected))"
proof -
  let ?s = "demo_connected"
  let ?s1 = "snd (resolvePath demo_api ''/a'' demo_connected)"
  have root: "parent (heap ?s 0) = None" "name (heap ?s 0) = ''My Drive''"
    "rootNode ?s = Some 0" "isDirectory (heap ?s 0)" "find_child (heap ?s) 0 ''My Drive'' = None"
    by (simp_all add: demo_defs model_defs)
  have 1: "getPath (heap ?s) 0 = Some ''/My Drive''"
    using getPath_not_inverse[where h = "heap ?s" and a = 0, THEN conjunct1] root by simp
  have pp: "path_parts ''/My Drive'' = ''My Drive'' # []"
    by (simp add: path_parts_def)
  have cl: "call_list demo_api (name_query (id' (heap ?s 0)) ''My Drive'') ?s =
      (Inr [], ?s\<lparr>calls := Suc (calls ?s)\<rparr>)"
    by (simp add: demo_defs model_defs)
  have 2: "fst (resolvePath demo_api ''/My Drive'' ?s) = Inl ''Path not found: /My Drive''"
    using getPath_not_inverse[where s = ?s and r = 0 and path = "''/My Drive''" and seg = "''My Drive''"
        and rest = "[]" and D = demo_api and ?s1.0 = "?s\<lparr>calls := Suc (calls ?s)\<rparr>",
        THEN conjunct2, THEN conjunct2, THEN conjunct2, THEN conjunct1]
      root pp cl by simp
  have ch: "parent_chain (heap ?s1) (parent (heap ?s1 1)) [0]"
    "map (\<lambda>x. name (heap ?s1 x)) [0, 1] = [''My Drive'', ''a'']"
    by (simp_all add: demo_defs model_defs)
  have 3: "getPath (heap ?s1) 1 = Some ''/My Drive/a''"
    using getPath_not_inverse[where h = "heap ?s1" and a = 1 and ps = "[0]", THEN conjunct2, THEN conjunct1]
      ch by simp
  have r1: "rootNode ?s1 = Some 0" "isDirectory (heap ?s1 0)" "find_child (heap ?s1) 0 ''a'' = Some 1"
    by (simp_all add: demo_defs model_defs)
  have pp2: "path_parts ''/a/x'' = ''a'' # [''x'']"
    by (simp add: path_parts_def)
  have 4: "resolvePath demo_api ''/a/x'' ?s1 = resolve_loop demo_api ''/a/x'' [''x''] 1 ?s1"
    using getPath_not_inverse[where s = ?s1 and r = 0 and path = "''/a/x''" and seg = "''a''"
        and rest = "[''x'']" and D = demo_api and c = 1,
        THEN conjunct2, THEN conjunct2, THEN conjunct1]
      r1 pp2 by simp
  from 1 2 3 4 show ?thesis by simp
qed

subsection \<open>Failures of the operations\<close>




















subsection \<open>writeFile\<close>

text \<open>
  C6. \<^verbatim>\<open>writeFile\<close> on a live session, after the parent path has resolved to \<open>p\<close>: the store
  receives the listing by name under \<open>p\<close>'s id, and then one more request. When the listing
  has a first entry \<open>f\<close>, that request is the update of the entry with \<open>f\<close>'s id, with the
  content; the node returned is a new node carrying the updated entry's id and metadata, and it
  takes the place of the first cached child of \<open>p\<close> with \<open>f\<close>'s id (\<open>p\<close> is left alone when it
  has no child list or no such child). When the listing is empty, that request is the creation
  of an entry with the name and the content under \<open>p\<close>'s id; the node returned is a new node
  carrying the created entry's id and metadata, attached by \<^verbatim>\<open>addChild\<close>: last in the child list
  of the folder \<open>p\<close>, with \<open>p\<close> as its parent. In both cases the store is left as that request
  left it, two requests were sent, and no other node changed.
\<close>

theorem writeFile_spec:
  assumes "reachable D s" and "autoConnect D now s = (Inr (), s0)"
    and "resolvePath D (parent_path path) s0 = (Inr p, s1)"
    and "files_list D (name_query (id' (heap s1 p)) (leaf_name path)) (drive s1) = (Inr files, r2)"
  shows
    "(\<forall>f fs data r3.
        files = f # fs \<and>
        files_update D \<lparr>update_fileId = file_id f, update_name = leaf_name path,
                        update_body = Some content, addParents = None, removeParents = None\<rparr> r2
          = (Inr data, r3)
        \<longrightarrow> (\<exists>s'. writeFile D now path content s = (Inr (nextAddr s1), s') \<and>
                  drive s' = r3 \<and> calls s' = calls s1 + 2 \<and> nextAddr s' = Suc (nextAddr s1) \<and>
                  heap s' (nextAddr s1) = node_of_file data \<and>
                  heap s' p =
                    (case children (heap s1 p) of
                       None \<Rightarrow> heap s1 p
                     | Some cs \<Rightarrow>
                         (case findIndex (\<lambda>child. id' (heap s1 child) = file_id f) cs of
                            None \<Rightarrow> heap s1 p
                          | Some index \<Rightarrow> (heap s1 p)\<lparr>children := Some (cs[index := nextAddr s1])\<rparr>)) \<and>
                  (\<forall>a. a \<noteq> p \<and> a \<noteq> nextAddr s1 \<longrightarrow> heap s' a = heap s1 a))) \<and>
     (\<forall>data r3.
        files = [] \<and>
        files_create D \<lparr>create_name = leaf_name path, create_mimeType = None,
                        create_parents = [id' (heap s1 p)], create_body = Some content\<rparr> r2
          = (Inr data, r3)
        \<longrightarrow> (\<exists>s'. writeFile D now path content s = (Inr (nextAddr s1), s') \<and>
                  drive s' = r3 \<and> calls s' = calls s1 + 2 \<and> nextAddr s' = Suc (nextAddr s1) \<and>
                  (if isDirectory (heap s1 p)
                   then heap s' (nextAddr s1) = (node_of_file data)\<lparr>parent := Some p\<rparr> \<and>
                        heap s' p =
                          (heap s1 p)\<lparr>children := Some (children_or_empty (heap s1 p) @ [nextAddr s1])\<rparr>
                   else heap s' (nextAddr s1) = node_of_file data \<and> heap s' p = heap s1 p) \<and>
                  (\<forall>a. a \<noteq> p \<and> a \<noteq> nextAddr s1 \<longrightarrow> heap s' a = heap s1 a))) \<and>
     id' (node_of_file data) = file_id data \<and> name (node_of_file data) = file_name data \<and>
     mimeType (node_of_file data) = file_mimeType data \<and>
     size' (node_of_file data) = or0 (case file_size data of None \<Rightarrow> NaN | Some n \<Rightarrow> to_double n) \<and>
     modifiedTime (node_of_file data) = Some (new_Date (file_modifiedTime data)) \<and>
     createdTime (node_of_file data) = Some (new_Date (file_createdTime data))"
proof -
  have i0: "inv s0" using autoConnect_inv[OF reachable_inv[OF assms(1)] assms(2)] .
  note i1 = resolvePath_inv[OF i0 assms(3)]
  let ?n = "nextAddr s1"
  have p1: "p < ?n" using i1(3) by simp
  let ?s2 = "s1\<lparr>drive := r2, calls := Suc (calls s1)\<rparr>"
  have cl: "call_list D (name_query (id' (heap s1 p)) (leaf_name path)) s1 = (Inr files, ?s2)"
    using assms(4) by (simp add: call_list_def)
  have ff: "findFileInFolder D (id' (heap s1 p)) (leaf_name path) s1 =
      (Inr (case files of [] \<Rightarrow> None | f # _ \<Rightarrow> Some f), ?s2)"
    using cl by (simp add: findFileInFolder_def)
  have kids: "\<forall>c \<in> set (children_or_empty (heap s1 p)). c \<noteq> ?n"
    using i1(1) unfolding inv_def valid_def by (metis less_irrefl)
  have upd: "\<exists>s'. writeFile D now path content s = (Inr ?n, s') \<and>
                  drive s' = r3 \<and> calls s' = calls s1 + 2 \<and> nextAddr s' = Suc ?n \<and>
                  heap s' ?n = node_of_file data \<and>
                  heap s' p =
                    (case children (heap s1 p) of
                       None \<Rightarrow> heap s1 p
                     | Some cs \<Rightarrow>
                         (case findIndex (\<lambda>child. id' (heap s1 child) = file_id f) cs of
                            None \<Rightarrow> heap s1 p
                          | Some index \<Rightarrow> (heap s1 p)\<lparr>children := Some (cs[index := ?n])\<rparr>)) \<and>
                  (\<forall>a. a \<noteq> p \<and> a \<noteq> ?n \<longrightarrow> heap s' a = heap s1 a)"
    if f: "files = f # fs"
      and fu: "files_update D \<lparr>update_fileId = file_id f, update_name = leaf_name path,
                        update_body = Some content, addParents = None, removeParents = None\<rparr> r2
          = (Inr data, r3)"
    for f fs data r3
  proof -
    let ?s3 = "s1\<lparr>drive := r3, calls := Suc (Suc (calls s1))\<rparr>"
    let ?s4 = "snd (alloc (node_of_file data) ?s3)"
    let ?s' = "replace_child p (file_id f) ?n ?s4"
    have cu: "call_update D \<lparr>update_fileId = file_id f, update_name = leaf_name path,
                        update_body = Some content, addParents = None, removeParents = None\<rparr> ?s2
          = (Inr data, ?s3)"
      using fu by (simp add: call_update_def)
    have w: "writeFile_try D path content s0 = (Inr ?n, ?s')"
      using assms(3) ff f cu by (simp add: writeFile_try_def alloc_def)
    have op: "writeFile D now path content s = (Inr ?n, ?s')"
      using assms(2) w by (simp add: writeFile_def operation_def rethrow_def)
    have h4: "heap ?s4 ?n = node_of_file data" "heap ?s4 p = heap s1 p"
      "\<And>c. c \<noteq> ?n \<Longrightarrow> heap ?s4 c = heap s1 c" "calls ?s4 = calls s1 + 2" "drive ?s4 = r3"
      "nextAddr ?s4 = Suc ?n"
      using p1 by (simp_all add: alloc_def)
    have fi: "findIndex (\<lambda>child. id' (heap ?s4 child) = file_id f) cs =
              findIndex (\<lambda>child. id' (heap s1 child) = file_id f) cs"
      if "children (heap s1 p) = Some cs" for cs
    proof -
      have "\<forall>c \<in> set cs. heap ?s4 c = heap s1 c"
        using kids that h4(3) by (simp add: children_or_empty_def)
      then show ?thesis by (induction cs) simp_all
    qed
    have a1: "drive ?s' = r3" "calls ?s' = calls s1 + 2" "nextAddr ?s' = Suc ?n"
      using h4(4,5,6) by (auto simp: replace_child_def upd_node_def split: option.splits)
    have a2: "heap ?s' ?n = node_of_file data"
      using h4 p1 by (auto simp: replace_child_def upd_node_def split: option.splits)
    have a3: "heap ?s' p =
                    (case children (heap s1 p) of
                       None \<Rightarrow> heap s1 p
                     | Some cs \<Rightarrow>
                         (case findIndex (\<lambda>child. id' (heap s1 child) = file_id f) cs of
                            None \<Rightarrow> heap s1 p
                          | Some index \<Rightarrow> (heap s1 p)\<lparr>children := Some (cs[index := ?n])\<rparr>))"
      using h4(2) fi by (auto simp: replace_child_def upd_node_def split: option.splits)
    have a4: "\<forall>a. a \<noteq> p \<and> a \<noteq> ?n \<longrightarrow> heap ?s' a = heap s1 a"
      using h4(3) by (auto simp: replace_child_def upd_node_def split: option.splits)
    from op a1 a2 a3 a4 show ?thesis by blast
  qed
  have cre: "\<exists>s'. writeFile D now path content s = (Inr ?n, s') \<and>
                  drive s' = r3 \<and> calls s' = calls s1 + 2 \<and> nextAddr s' = Suc ?n \<and>
                  (if isDirectory (heap s1 p)
                   then heap s' ?n = (node_of_file data)\<lparr>parent := Some p\<rparr> \<and>
                        heap s' p =
                          (heap s1 p)\<lparr>children := Some (children_or_empty (heap s1 p) @ [?n])\<rparr>
                   else heap s' ?n = node_of_file data \<and> heap s' p = heap s1 p) \<and>
                  (\<forall>a. a \<noteq> p \<and> a \<noteq> ?n \<longrightarrow> heap s' a = heap s1 a)"
    if f: "files = []"
      and fc: "files_create D \<lparr>create_name = leaf_name path, create_mimeType = None,
                        create_parents = [id' (heap s1 p)], create_body = Some content\<rparr> r2
          = (Inr data, r3)"
    for data r3
  proof -
    let ?s3 = "s1\<lparr>drive := r3, calls := Suc (Suc (calls s1))\<rparr>"
    let ?s4 = "snd (alloc (node_of_file data) ?s3)"
    let ?s' = "addChild p ?n ?s4"
    have cc: "call_create D \<lparr>create_name = leaf_name path, create_mimeType = None,
                        create_parents = [id' (heap ?s2 p)], create_body = Some content\<rparr> ?s2
          = (Inr data, ?s3)"
      using fc by (simp add: call_create_def)
    have w: "writeFile_try D path content s0 = (Inr ?n, ?s')"
      using assms(3) ff f cc by (simp add: writeFile_try_def alloc_def)
    have op: "writeFile D now path content s = (Inr ?n, ?s')"
      using assms(2) w by (simp add: writeFile_def operation_def rethrow_def)
    have a1: "drive ?s' = r3" "calls ?s' = calls s1 + 2" "nextAddr ?s' = Suc ?n"
      by (simp_all add: addChild_def upd_node_def alloc_def)
    have a2: "if isDirectory (heap s1 p)
                   then heap ?s' ?n = (node_of_file data)\<lparr>parent := Some p\<rparr> \<and>
                        heap ?s' p =
                          (heap s1 p)\<lparr>children := Some (children_or_empty (heap s1 p) @ [?n])\<rparr>
                   else heap ?s' ?n = node_of_file data \<and> heap ?s' p = heap s1 p"
      using p1 by (simp add: addChild_def upd_node_def alloc_def)
    have a4: "\<forall>a. a \<noteq> p \<and> a \<noteq> ?n \<longrightarrow> heap ?s' a = heap s1 a"
      by (simp add: addChild_def upd_node_def alloc_def)
    from op a1 a2 a4 show ?thesis by blast
  qed
  have meta: "id' (node_of_file data) = file_id data \<and> name (node_of_file data) = file_name data \<and>
     mimeType (node_of_file data) = file_mimeType data \<and>
     size' (node_of_file data) = or0 (case file_size data of None \<Rightarrow> NaN | Some n \<Rightarrow> to_double n) \<and>
     modifiedTime (node_of_file data) = Some (new_Date (file_modifiedTime data)) \<and>
     createdTime (node_of_file data) = Some (new_Date (file_createdTime data))"
    by (simp add: node_of_file_def new_Node_def parseInt_or0_def split: option.splits)
  from upd cre meta show ?thesis by blast
qed


theorem writeFile_spec_witness:
  "fst (writeFile demo_api 1 ''/a/x'' ''hello'' (snd (readdir demo_api 1 ''/a'' demo_connected))) = Inr 4 \<and>
   drive (snd (writeFile demo_api 1 ''/a/x'' ''hello'' (snd (readdir demo_api 1 ''/a'' demo_connected))))
     = [([], demo_entry ''R'' ''My Drive'' DriveMimeTypes_Folder None),
        (''R'', demo_entry ''A'' ''a'' DriveMimeTypes_Folder None),
        (''R'', demo_entry ''F'' ''file.txt'' ''text/plain'' (Some 5)),
        (''A'', demo_entry ''X'' ''x'' ''text/plain'' (Some 5)),
        (''A'', demo_entry ''Y'' ''y'' ''text/plain'' (Some 20))] \<and>
   calls (snd (writeFile demo_api 1 ''/a/x'' ''hello'' (snd (readdir demo_api 1 ''/a'' demo_connected))))
     = calls (snd (readdir demo_api 1 ''/a'' demo_connected)) + 2 \<and>
   children (heap (snd (writeFile demo_api 1 ''/a/x'' ''hello'' (snd (readdir demo_api 1 ''/a'' demo_connected)))) 1)
     = Some [4, 3] \<and>
   heap (snd (writeFile demo_api 1 ''/a/x'' ''hello'' (snd (readdir demo_api 1 ''/a'' demo_connected)))) 4
     = node_of_file (demo_entry ''X'' ''x'' ''text/plain'' (Some 5)) \<and>
   fst (writeFile demo_api 1 ''/a/z'' ''hi'' (snd (readdir demo_api 1 ''/a'' demo_connected))) = Inr 4 \<and>
   drive (snd (writeFile demo_api 1 ''/a/z'' ''hi'' (snd (readdir demo_api 1 ''/a'' demo_connected))))
     = demo_store0 @ [(''A'', demo_entry ''N+++++'' ''z'' ''text/plain'' (Some 2))] \<and>
   calls (snd (writeFile demo_api 1 ''/a/z'' ''hi'' (snd (readdir demo_api 1 ''/a'' demo_connected))))
     = calls (snd (readdir demo_api 1 ''/a'' demo_connected)) + 2 \<and>
   children (heap (snd (writeFile demo_api 1 ''/a/z'' ''hi'' (snd (readdir demo_api 1 ''/a'' demo_connected)))) 1)
     = Some [2, 3, 4] \<and>
   heap (snd (writeFile demo_api 1 ''/a/z'' ''hi'' (snd (readdir demo_api 1 ''/a'' demo_connected)))) 4
     = (node_of_file (demo_entry ''N+++++'' ''z'' ''text/plain'' (Some 2)))\<lparr>parent := Some 1\<rparr>"
proof -
  let ?s = "snd (readdir demo_api 1 ''/a'' demo_connected)"
  have r: "reachable demo_api ?s"
    unfolding demo_connected_def by (intro reachable.intros)
  have sv: "rootNode ?s = Some 0" "nextAddr ?s = 4" "connected ?s" "lastConnect ?s = Some 0"
    "children (heap ?s 0) = Some [1]" "children (heap ?s 1) = Some [2, 3]"
    "isDirectory (heap ?s 0)" "isDirectory (heap ?s 1)" "name (heap ?s 1) = ''a''"
    "id' (heap ?s 1) = ''A''" "id' (heap ?s 2) = ''X''" "id' (heap ?s 3) = ''Y''"
    "name (heap ?s 2) = ''x''" "name (heap ?s 3) = ''y''" "drive ?s = demo_store0"
    by (simp_all add: demo_defs model_defs op_defs)
  have ac: "autoConnect demo_api 1 ?s = (Inr (), ?s)"
    using sv(3,4) by (simp add: autoConnect_def CONNECTION_TIMEOUT_def)
  have pp: "parent_path ''/a/x'' = ''/a''" "leaf_name ''/a/x'' = ''x''"
    "parent_path ''/a/z'' = ''/a''" "leaf_name ''/a/z'' = ''z''" "path_parts ''/a'' = [''a'']"
    by (simp_all add: parent_path_def leaf_name_def path_parts_def)
  have "cached_walk (heap ?s) 0 [''a''] = Some 1"
    using sv by (simp add: find_child_def)
  then have "resolve_loop demo_api ''/a'' [''a''] 0 ?s = (Inr 1, ?s)"
    by (rule cached_walk_resolve)
  then have rp: "resolvePath demo_api ''/a'' ?s = (Inr 1, ?s)"
    using sv(1) pp(5) by (simp add: resolvePath_loop)
  let ?X = "demo_entry ''X'' ''x'' ''text/plain'' (Some 10)"
  have flx: "files_list demo_api (name_query (id' (heap ?s 1)) ''x'') (drive ?s) = (Inr [?X], demo_store0)"
    using sv(10,15) by (simp add: demo_defs name_query_def children_query_def sq_def)
  let ?ups = "\<lparr>update_fileId = file_id ?X, update_name = ''x'',
                 update_body = Some ''hello'', addParents = None, removeParents = None\<rparr>"
  let ?X' = "demo_entry ''X'' ''x'' ''text/plain'' (Some 5)"
  let ?r3 = "[([], demo_entry ''R'' ''My Drive'' DriveMimeTypes_Folder None),
        (''R'', demo_entry ''A'' ''a'' DriveMimeTypes_Folder None),
        (''R'', demo_entry ''F'' ''file.txt'' ''text/plain'' (Some 5)),
        (''A'', ?X'),
        (''A'', demo_entry ''Y'' ''y'' ''text/plain'' (Some 20))]"
  have fu: "files_update demo_api ?ups demo_store0 = (Inr ?X', ?r3)"
    by (simp add: demo_defs)
  from writeFile_spec[where D = demo_api and s = ?s and now = 1 and ?s0.0 = ?s and path = "''/a/x''"
      and p = 1 and ?s1.0 = ?s and files = "[?X]" and ?r2.0 = demo_store0 and content = "''hello''",
      OF r ac, unfolded pp, OF rp flx, THEN conjunct1, rule_format, of ?X "[]" ?X' ?r3] fu
  obtain s' where u: "writeFile demo_api 1 ''/a/x'' ''hello'' ?s = (Inr 4, s')"
      "drive s' = ?r3" "calls s' = calls ?s + 2"
      "heap s' 4 = node_of_file ?X'" "children (heap s' 1) = Some [4, 3]"
    using sv(2,6,11,12) by (auto simp: demo_entry_def)
  have flz: "files_list demo_api (name_query (id' (heap ?s 1)) ''z'') (drive ?s) = (Inr [], demo_store0)"
    using sv(10,15) by (simp add: demo_defs name_query_def children_query_def sq_def)
  let ?cps = "\<lparr>create_name = ''z'', create_mimeType = None,
                 create_parents = [id' (heap ?s 1)], create_body = Some ''hi''\<rparr>"
  let ?Z = "demo_entry ''N+++++'' ''z'' ''text/plain'' (Some 2)"
  have fc: "files_create demo_api ?cps demo_store0 = (Inr ?Z, demo_store0 @ [(''A'', ?Z)])"
    using sv(10) by (simp add: demo_defs)
  from writeFile_spec[where D = demo_api and s = ?s and now = 1 and ?s0.0 = ?s and path = "''/a/z''"
      and p = 1 and ?s1.0 = ?s and files = "[]" and ?r2.0 = demo_store0 and content = "''hi''",
      OF r ac, unfolded pp, OF rp flz, THEN conjunct2, THEN conjunct1, rule_format,
      of ?Z "demo_store0 @ [(''A'', ?Z)]"] fc
  obtain s'' where c: "writeFile demo_api 1 ''/a/z'' ''hi'' ?s = (Inr 4, s'')"
      "drive s'' = demo_store0 @ [(''A'', ?Z)]" "calls s'' = calls ?s + 2"
      "heap s'' 4 = (node_of_file ?Z)\<lparr>parent := Some 1\<rparr>" "children (heap s'' 1) = Some [2, 3, 4]"
    using sv(2,6,8) by (auto simp: children_or_empty_def)
  from u c show ?thesis by simp
qed

subsection \<open>A node that is its own parent\<close>

lemma getPath_loop_self:
  assumes "parent (h a) = Some a"
  shows "getPath_loop h acc (Some a) = None"
proof -
  have "h' = h \<longrightarrow> cur \<noteq> Some a" if "getPath_loop h' acc cur = Some y" for h' acc cur y
  proof (rule getPath_loop.raw_induct[where P = "\<lambda>h' acc cur y. h' = h \<longrightarrow> cur \<noteq> Some a", OF _ that])
    fix f h' acc cur y
    assume ih: "\<And>h' acc cur y. f h' acc cur = Some y \<Longrightarrow> h' = h \<longrightarrow> cur \<noteq> Some a"
      and st: "(case cur of None \<Rightarrow> Some acc
                | Some c \<Rightarrow> f h' (name (h' c) @ ''/'' @ acc) (parent (h' c))) = Some y"
    show "h' = h \<longrightarrow> cur \<noteq> Some a"
      using ih st assms by (auto split: option.splits)
  qed
  then show ?thesis by (cases "getPath_loop h acc (Some a)") auto
qed

lemma getSize_self:
  assumes "isDirectory (h a)" "a \<in> set (children_or_empty (h a))"
  shows "getSize k h a = None"
proof (induction k)
  case 0
  show ?case by simp
next
  case (Suc k)
  have "\<not> (\<forall>c \<in> set (children_or_empty (h a)). getSize k h c \<noteq> None)"
    using Suc assms(2) by blast
  then have "foldl (\<lambda>total child. case total of None \<Rightarrow> None
            | Some t \<Rightarrow> (case getSize k h child of None \<Rightarrow> None | Some v \<Rightarrow> Some (js_add t v)))
         (Some (Number 0)) (children_or_empty (h a)) = None"
    using foldl_size_returns[of "getSize k h" "Number 0" "children_or_empty (h a)"] by (metis option.exhaust)
  then show ?case using assms(1) by (simp add: isFile_def)
qed

text \<open>
  C4. The call \<^verbatim>\<open>rename('/a', '/a/b')\<close> on a freshly connected client, with \<^verbatim>\<open>/a\<close> a folder
  and a store that accepts the update. Source and destination parent resolve to the same
  node; the call succeeds and leaves that node as its own parent and its own child, detached
  from the root. From then on \<^verbatim>\<open>getPath()\<close> on it does not return, and \<^verbatim>\<open>getSize()\<close> does not
  return at any depth. \<^verbatim>\<open>rename('/', '/x')\<close> does the same to the root itself, after which
  \<^verbatim>\<open>stat('/')\<close> fails.
\<close>

theorem rename_into_itself:
  "reachable demo_api (snd (rename demo_api 1 ''/a'' ''/a/b'' demo_connected)) \<and>
   fst (resolvePath demo_api ''/a'' demo_connected) = Inr 1 \<and>
   fst (resolvePath demo_api (parent_path ''/a/b'') (snd (resolvePath demo_api ''/a'' demo_connected))) = Inr 1 \<and>
   fst (rename demo_api 1 ''/a'' ''/a/b'' demo_connected) = Inr 1 \<and>
   parent (heap (snd (rename demo_api 1 ''/a'' ''/a/b'' demo_connected)) 1) = Some 1 \<and>
   children (heap (snd (rename demo_api 1 ''/a'' ''/a/b'' demo_connected)) 1) = Some [1] \<and>
   children (heap (snd (rename demo_api 1 ''/a'' ''/a/b'' demo_connected)) 0) = Some [] \<and>
   getPath (heap (snd (rename demo_api 1 ''/a'' ''/a/b'' demo_connected))) 1 = None \<and>
   (\<forall>k. getSize k (heap (snd (rename demo_api 1 ''/a'' ''/a/b'' demo_connected))) 1 = None) \<and>
   fst (rename demo_api 1 ''/'' ''/x'' demo_connected) = Inr 0 \<and>
   rootNode (snd (rename demo_api 1 ''/'' ''/x'' demo_connected)) = Some 0 \<and>
   parent (heap (snd (rename demo_api 1 ''/'' ''/x'' demo_connected)) 0) = Some 0 \<and>
   fst (stat demo_api 1 ''/'' (snd (rename demo_api 1 ''/'' ''/x'' demo_connected))) =
     Inl ''Failed to get file stats: Maximum call stack size exceeded''"
proof -
  let ?s = "snd (rename demo_api 1 ''/a'' ''/a/b'' demo_connected)"
  have r: "reachable demo_api ?s"
    unfolding demo_connected_def by (intro reachable.intros)
  have res: "fst (resolvePath demo_api ''/a'' demo_connected) = Inr 1"
    "fst (resolvePath demo_api (parent_path ''/a/b'') (snd (resolvePath demo_api ''/a'' demo_connected))) = Inr 1"
    by (simp_all add: demo_defs model_defs op_defs)
  have v: "fst (rename demo_api 1 ''/a'' ''/a/b'' demo_connected) = Inr 1"
    "heap ?s 1 = (node_of_file_dflt (demo_entry ''A'' ''b'' DriveMimeTypes_Folder None))
                   \<lparr>children := Some [1], parent := Some 1\<rparr>"
    "children (heap ?s 0) = Some []"
    by (simp_all add: demo_defs model_defs op_defs)
  have p: "parent (heap ?s 1) = Some 1" "children (heap ?s 1) = Some [1]"
    "isDirectory (heap ?s 1)" "1 \<in> set (children_or_empty (heap ?s 1))"
    unfolding v(2) by (simp_all add: demo_defs model_defs)
  have gp: "getPath (heap ?s) 1 = None"
    using getPath_loop_self[of "heap ?s" 1, OF p(1)] p(1) by (simp add: getPath_def)
  have gs: "\<forall>k. getSize k (heap ?s) 1 = None"
    using getSize_self[of "heap ?s" 1, OF p(3,4)] by blast
  let ?t = "snd (rename demo_api 1 ''/'' ''/x'' demo_connected)"
  have t: "fst (rename demo_api 1 ''/'' ''/x'' demo_connected) = Inr 0"
    "rootNode ?t = Some 0" "parent (heap ?t 0) = Some 0"
    by (simp_all add: demo_defs model_defs op_defs)
  have st: "fst (stat demo_api 1 ''/'' ?t) =
     Inl ''Failed to get file stats: Maximum call stack size exceeded''"
    by (simp add: demo_defs model_defs op_defs)
  from r res v(1,3) p(1,2) gp gs t st show ?thesis by (simp del: getSize.simps)
qed

subsection \<open>Paths as segment lists\<close>









subsection \<open>Walks over the cache\<close>








subsection \<open>The store after the local part of rename\<close>













end
